theory Spec2Isabelle
  imports Complex_Main
begin

section \<open>Quality models (src/models/quality_models.py)\<close>

text \<open>
  The pydantic models are records; the enums are datatypes. Python floats are read as
  real numbers: the scores below are built from decimal constants, comparisons, sums and
  one division, and the statements about them are those of the exact arithmetic.
  Enum members carry a prefix because several enums of the program share member names.
\<close>

datatype QualityGateStatus = QG_PASSED | QG_FAILED | QG_WARNING | QG_SKIPPED | QG_ERROR

record TDDValidation =
  tdd_status :: QualityGateStatus
  test_coverage_percentage :: real
  minimum_coverage_required :: real
  test_count :: int
  passing_tests :: int
  failing_tests :: int
  red_green_refactor_cycle_followed :: bool

record SecurityValidation =
  sec_status :: QualityGateStatus
  vulnerability_scan_passed :: bool
  input_validation_implemented :: bool
  secure_coding_practices_followed :: bool
  high_severity_vulnerabilities :: int
  medium_severity_vulnerabilities :: int
  low_severity_vulnerabilities :: int

record PerformanceValidation =
  perf_status :: QualityGateStatus
  benchmark_executed :: bool
  execution_time_seconds :: "real option"
  memory_usage_mb :: "real option"
  performance_requirements_met :: bool

record CodeQualityValidation =
  cq_status :: QualityGateStatus
  static_analysis_passed :: bool
  type_checking_passed :: bool
  linting_passed :: bool
  complexity_score :: "real option"
  documentation_coverage_percentage :: "real option"
  code_style_violations :: int

record QualityResult =
  qr_task_id :: string
  overall_status :: QualityGateStatus
  tdd_validation :: TDDValidation
  security_validation :: SecurityValidation
  performance_validation :: PerformanceValidation
  code_quality_validation :: CodeQualityValidation
  quality_score :: "real option"

text \<open>\<^verbatim>\<open>TDDValidation.meets_requirements\<close>\<close>

definition meets_requirements :: "TDDValidation \<Rightarrow> bool" where
  "meets_requirements t =
     (test_coverage_percentage t \<ge> minimum_coverage_required t \<and>
      failing_tests t = 0 \<and>
      test_count t > 0 \<and>
      red_green_refactor_cycle_followed t)"

text \<open>\<^verbatim>\<open>SecurityValidation.meets_security_requirements\<close>\<close>

definition meets_security_requirements :: "SecurityValidation \<Rightarrow> bool" where
  "meets_security_requirements s =
     (high_severity_vulnerabilities s = 0 \<and>
      vulnerability_scan_passed s \<and>
      input_validation_implemented s \<and>
      secure_coding_practices_followed s)"

text \<open>
  \<^verbatim>\<open>PerformanceValidation.calculate_performance_score\<close>: the list
  \<^verbatim>\<open>score_factors\<close> is built in three steps and averaged; the guard
  \<^verbatim>\<open>if score_factors else 0.5\<close> is kept.
\<close>

definition time_factor :: "real option \<Rightarrow> real list" where
  "time_factor e =
     (case e of None \<Rightarrow> []
      | Some x \<Rightarrow> (if x \<le> 1.0 then [1.0] else if x \<le> 10.0 then [0.8]
                  else if x \<le> 60.0 then [0.6] else [0.4]))"

definition memory_factor :: "real option \<Rightarrow> real list" where
  "memory_factor m =
     (case m of None \<Rightarrow> []
      | Some x \<Rightarrow> (if x \<le> 100 then [1.0] else if x \<le> 500 then [0.8]
                  else if x \<le> 1000 then [0.6] else [0.4]))"

definition score_factors :: "PerformanceValidation \<Rightarrow> real list" where
  "score_factors p =
     time_factor (execution_time_seconds p) @ memory_factor (memory_usage_mb p) @
     (if performance_requirements_met p then [1.0] else [0.5])"

definition calculate_performance_score :: "PerformanceValidation \<Rightarrow> real" where
  "calculate_performance_score p =
     (if score_factors p \<noteq> []
      then sum_list (score_factors p) / real (length (score_factors p)) else 0.5)"

text \<open>\<^verbatim>\<open>CodeQualityValidation.calculate_quality_score\<close>\<close>

definition complexity_points :: "real option \<Rightarrow> real" where
  "complexity_points c =
     (case c of None \<Rightarrow> 0
      | Some x \<Rightarrow> (if x \<le> 5.0 then 1.0 else if x \<le> 10.0 then 0.7
                  else if x \<le> 20.0 then 0.4 else 0.1))"

definition documentation_points :: "real option \<Rightarrow> real" where
  "documentation_points d =
     (case d of None \<Rightarrow> 0
      | Some x \<Rightarrow> (if x \<ge> 80 then 1.0 else if x \<ge> 60 then 0.7
                  else if x \<ge> 40 then 0.4 else 0.1))"

definition calculate_quality_score :: "CodeQualityValidation \<Rightarrow> real" where
  "calculate_quality_score c =
     ((if static_analysis_passed c then 1.0 else 0) +
      (if type_checking_passed c then 1.0 else 0) +
      (if linting_passed c then 1.0 else 0) +
      complexity_points (complexity_score c) +
      documentation_points (documentation_coverage_percentage c)) / 5.0"

text \<open>\<^verbatim>\<open>CodeQualityValidation.meets_quality_standards\<close>\<close>

definition meets_quality_standards :: "CodeQualityValidation \<Rightarrow> bool" where
  "meets_quality_standards c =
     (static_analysis_passed c \<and> type_checking_passed c \<and> linting_passed c \<and>
      code_style_violations c = 0)"

text \<open>
  \<^verbatim>\<open>QualityResult.calculate_overall_quality_score\<close>: the two local scores
  \<^verbatim>\<open>tdd_score\<close> and \<^verbatim>\<open>security_score\<close>, the list \<^verbatim>\<open>scores\<close> of the four
  components, and the assignment to \<^verbatim>\<open>self.quality_score\<close>.
\<close>

definition tdd_score :: "TDDValidation \<Rightarrow> real" where
  "tdd_score t =
     (if meets_requirements t then 1.0
      else if test_coverage_percentage t \<ge> 80 then 0.8
      else if test_coverage_percentage t \<ge> 60 then 0.6
      else 0.3)"

definition security_score :: "SecurityValidation \<Rightarrow> real" where
  "security_score s =
     (if meets_security_requirements s then 1.0
      else if high_severity_vulnerabilities s = 0 then 0.7
      else 0.3)"

definition scores :: "QualityResult \<Rightarrow> real list" where
  "scores q =
     [tdd_score (tdd_validation q),
      security_score (security_validation q),
      calculate_performance_score (performance_validation q),
      calculate_quality_score (code_quality_validation q)]"

definition calculate_overall_quality_score :: "QualityResult \<Rightarrow> QualityResult" where
  "calculate_overall_quality_score q =
     q\<lparr>quality_score := Some (sum_list (scores q) / real (length (scores q)))\<rparr>"

text \<open>\<^verbatim>\<open>QualityResult.all_quality_gates_passed\<close>\<close>

definition all_quality_gates_passed :: "QualityResult \<Rightarrow> bool" where
  "all_quality_gates_passed q =
     (meets_requirements (tdd_validation q) \<and>
      meets_security_requirements (security_validation q) \<and>
      performance_requirements_met (performance_validation q) \<and>
      meets_quality_standards (code_quality_validation q))"

section \<open>Quality gate engine (src/execution/quality_gate_engine.py)\<close>

text \<open>
  \<^verbatim>\<open>QualityGateEngine.validate_task_quality\<close>. The four validators run tools and
  catch their own exceptions (each returns a validation with status \<^verbatim>\<open>ERROR\<close> then),
  so their results are the arguments \<open>t\<close>, \<open>s\<close>, \<open>p\<close>, \<open>c\<close>. The overall status
  starts at \<^verbatim>\<open>PASSED\<close> and is overwritten after each validator, in the source's order;
  the result is built and its score computed.
\<close>

definition fail_if_failed :: "QualityGateStatus \<Rightarrow> QualityGateStatus \<Rightarrow> QualityGateStatus" where
  "fail_if_failed sub overall = (if sub = QG_FAILED then QG_FAILED else overall)"

definition validate_task_quality ::
  "string \<Rightarrow> TDDValidation \<Rightarrow> SecurityValidation \<Rightarrow> PerformanceValidation \<Rightarrow>
   CodeQualityValidation \<Rightarrow> QualityResult" where
  "validate_task_quality tid t s p c =
     (let overall0 = QG_PASSED;
          overall1 = fail_if_failed (tdd_status t) overall0;
          overall2 = fail_if_failed (sec_status s) overall1;
          overall3 = fail_if_failed (perf_status p) overall2;
          overall4 = fail_if_failed (cq_status c) overall3
      in calculate_overall_quality_score
           \<lparr>qr_task_id = tid, overall_status = overall4, tdd_validation = t,
            security_validation = s, performance_validation = p,
            code_quality_validation = c, quality_score = None\<rparr>)"

section \<open>Exceptions\<close>

text \<open>
  An exception is a value: its class and its message. \<^verbatim>\<open>str(e)\<close> is the message.
  \<^verbatim>\<open>CircularDependencyError\<close> is declared as a subclass of
  \<^verbatim>\<open>DependencyAnalysisError\<close>; an object of the base class is not an instance of
  the subclass. \<^verbatim>\<open>AttributeError\<close> is what reading an attribute that an object
  does not have raises; for an instance of a class the message is
  \<^verbatim>\<open>'C' object has no attribute 'name'\<close>.
\<close>

datatype exn =
    DependencyAnalysisError string
  | CircularDependencyError string
  | ParallelExecutionError string
  | AgentCoordinationError string
  | QualityGateError string
  | ZeroDivisionError string
  | ValidationError string
  | KeyError string
  | TypeError string
  | ValueError string
  | AttributeError string
  | Exception string

fun str :: "exn \<Rightarrow> string" where
  "str (DependencyAnalysisError m) = m"
| "str (CircularDependencyError m) = m"
| "str (ParallelExecutionError m) = m"
| "str (AgentCoordinationError m) = m"
| "str (QualityGateError m) = m"
| "str (ZeroDivisionError m) = m"
| "str (ValidationError m) = m"
| "str (KeyError m) = m"
| "str (TypeError m) = m"
| "str (ValueError m) = m"
| "str (AttributeError m) = m"
| "str (Exception m) = m"

text \<open>
  \<^verbatim>\<open>repr\<close> of a string without quotes of its own, and the exception raised by
  reading the attribute \<open>name\<close> of an instance of the class \<open>cls\<close> that has no such
  attribute.
\<close>

definition repr_string :: "string \<Rightarrow> string" where
  "repr_string s = [CHR 0x27] @ s @ [CHR 0x27]"

definition no_attribute :: "string \<Rightarrow> string \<Rightarrow> exn" where
  "no_attribute cls name =
     AttributeError (repr_string cls @ '' object has no attribute '' @ repr_string name)"

section \<open>Tasks and graphs (src/models/complete_task.py, src/models/execution_graph.py)\<close>

text \<open>
  The fields of \<^verbatim>\<open>CompleteTask\<close> that the modelled functions read.
  \<open>file_locations\<close> is \<^verbatim>\<open>complete_context.file_locations\<close>, a dictionary from
  file path to description, here an association list in insertion order;
  \<^verbatim>\<open>estimated_duration_minutes\<close> is \<^verbatim>\<open>Optional[int]\<close> with default
  \<^verbatim>\<open>None\<close>.
\<close>

record CompleteTask =
  task_id :: string
  title :: string
  file_locations :: "(string \<times> string) list"
  estimated_duration_minutes :: "int option"

text \<open>
  \<^verbatim>\<open>task.depends_on\<close>. The class \<^verbatim>\<open>CompleteTask\<close> declares no field of that
  name (its dependency list is \<^verbatim>\<open>complete_context.dependencies\<close>, which the
  analyzer and the orchestrator do not read), and the class keeps no keyword that it
  does not declare, so the \<^verbatim>\<open>depends_on=\<close> that the task generator passes to the
  constructor is dropped. The analyzer (\<^verbatim>\<open>_extract_explicit_dependencies\<close>) and
  the orchestrator (\<^verbatim>\<open>_verify_layer_dependencies\<close>) read
  \<^verbatim>\<open>task.depends_on\<close>: for every task the read raises \<^verbatim>\<open>AttributeError\<close>.
\<close>

definition depends_on :: "CompleteTask \<Rightarrow> exn + string list" where
  "depends_on task = Inl (no_attribute ''CompleteTask'' ''depends_on'')"

text \<open>
  The enum \<^verbatim>\<open>DependencyType\<close> has four members. The analyzer also names
  \<^verbatim>\<open>DependencyType.EXPLICIT\<close>, \<^verbatim>\<open>DependencyType.LOGICAL\<close> and
  \<^verbatim>\<open>DependencyType.ARCHITECTURAL\<close>, which the enum does not declare: evaluating
  such an expression raises \<^verbatim>\<open>AttributeError\<close>. Its message is the member's
  name up to Python 3.11 and names the class as well from Python 3.12 on; the former is
  written below, and no statement depends on it.
\<close>

datatype DependencyType = CODE | FILE | ENVIRONMENT | DATA

definition DependencyType_EXPLICIT :: "exn + DependencyType" where
  "DependencyType_EXPLICIT = Inl (AttributeError ''EXPLICIT'')"

text \<open>
  The validator of \<^verbatim>\<open>TaskDependency\<close> strips blanks around the two identifiers and
  rejects an empty one. The identifier of a task matches \<^verbatim>\<open>^[a-zA-Z0-9_-]+$\<close>, so
  an edge between tasks is stored as given. The description of an edge is left out: no
  decision reads it.
\<close>

record TaskDependency =
  from_task_id :: string
  to_task_id :: string
  dependency_type :: DependencyType
  is_blocking :: bool

record DependencyGraph =
  tasks :: "string list"
  dependencies :: "TaskDependency list"

record ExecutionLayer =
  layer_number :: int
  layer_tasks :: "CompleteTask list"
  layer_estimated_duration_minutes :: "int option"

record ExecutionGraph =
  dependency_graph :: DependencyGraph
  execution_layers :: "ExecutionLayer list"
  total_tasks :: int
  parallelization_factor :: real

text \<open>
  \<^verbatim>\<open>execution_graph.total_estimated_duration_minutes\<close>. The class
  \<^verbatim>\<open>ExecutionGraph\<close> declares the field \<^verbatim>\<open>estimated_total_duration_minutes\<close>;
  it has no attribute \<^verbatim>\<open>total_estimated_duration_minutes\<close>, and the keyword of
  that name that \<^verbatim>\<open>create_execution_graph\<close> passes to the constructor is dropped.
  Reading it raises \<^verbatim>\<open>AttributeError\<close> for every graph.
\<close>

definition total_estimated_duration_minutes :: "ExecutionGraph \<Rightarrow> exn + int option" where
  "total_estimated_duration_minutes g =
     Inl (no_attribute ''ExecutionGraph'' ''total_estimated_duration_minutes'')"

section \<open>Result models (src/models/result_models.py)\<close>

text \<open>
  The dictionary \<^verbatim>\<open>error_details\<close> has two shapes in the orchestrator:
  \<^verbatim>\<open>{"error": str(e)}\<close> and
  \<^verbatim>\<open>{"type": "quality_gate_failure", "failed_gates": [...]}\<close>. Timestamps are left
  out of the records: no modelled decision reads them.
\<close>

datatype TaskExecutionStatus =
  TS_PENDING | TS_IN_PROGRESS | TS_COMPLETED | TS_FAILED | TS_CANCELLED | TS_RETRYING

datatype error_details = ErrorMessage string | QualityGateFailure "string list"

record TaskResult =
  tr_task_id :: string
  tr_status :: TaskExecutionStatus
  tr_agent_id :: "string option"
  implementation_artifacts :: "string list"
  test_artifacts :: "string list"
  documentation_artifacts :: "string list"
  implementation_summary :: "string option"
  quality_validation :: "QualityResult option"
  tr_error_details :: "error_details option"

text \<open>\<^verbatim>\<open>TaskResult.is_successful\<close>\<close>

definition TaskResult_is_successful :: "TaskResult \<Rightarrow> bool" where
  "TaskResult_is_successful r =
     (tr_status r = TS_COMPLETED \<and>
      (case quality_validation r of None \<Rightarrow> True | Some q \<Rightarrow> all_quality_gates_passed q))"

record ExecutionResult =
  execution_id :: string
  er_total_tasks :: int
  successful_tasks :: int
  failed_tasks :: int
  cancelled_tasks :: int
  er_task_results :: "TaskResult list"
  average_tasks_per_layer :: real
  error_summary :: "string list"

text \<open>
  The constructor of \<^verbatim>\<open>ExecutionResult\<close> with the constraints of its fields
  (\<^verbatim>\<open>total_tasks\<close> greater than 0, the three counts at least 0) and its validator
  \<^verbatim>\<open>validate_task_counts\<close> (no count above the total).
\<close>

definition count_ok :: "int \<Rightarrow> int \<Rightarrow> bool" where
  "count_ok n v = (0 \<le> v \<and> \<not> v > n)"

definition new_ExecutionResult ::
  "string \<Rightarrow> int \<Rightarrow> int \<Rightarrow> int \<Rightarrow> int \<Rightarrow> TaskResult list \<Rightarrow> real \<Rightarrow> string list \<Rightarrow>
   exn + ExecutionResult" where
  "new_ExecutionResult eid n succ failed cancelled results avg errors =
     (if \<not> n > 0 then Inl (ValidationError ''total_tasks'')
      else if \<not> count_ok n succ then Inl (ValidationError ''successful_tasks'')
      else if \<not> count_ok n failed then Inl (ValidationError ''failed_tasks'')
      else if \<not> count_ok n cancelled then Inl (ValidationError ''cancelled_tasks'')
      else Inr \<lparr>execution_id = eid, er_total_tasks = n, successful_tasks = succ,
                failed_tasks = failed, cancelled_tasks = cancelled,
                er_task_results = results, average_tasks_per_layer = avg,
                error_summary = errors\<rparr>)"

text \<open>\<^verbatim>\<open>ExecutionResult.update_task_counts\<close>\<close>

definition update_task_counts :: "ExecutionResult \<Rightarrow> ExecutionResult" where
  "update_task_counts r =
     r\<lparr>successful_tasks := int (length (filter TaskResult_is_successful (er_task_results r))),
       failed_tasks := int (length (filter (\<lambda>t. tr_status t = TS_FAILED) (er_task_results r))),
       cancelled_tasks :=
         int (length (filter (\<lambda>t. tr_status t = TS_CANCELLED) (er_task_results r)))\<rparr>"

text \<open>\<^verbatim>\<open>ExecutionResult.is_successful\<close>\<close>

definition ExecutionResult_is_successful :: "ExecutionResult \<Rightarrow> bool" where
  "ExecutionResult_is_successful r =
     (failed_tasks r = 0 \<and>
      successful_tasks r = er_total_tasks r \<and>
      length (error_summary r) = 0)"

section \<open>Session orchestrator (src/execution/parallel_orchestrator.py)\<close>

text \<open>
  A Python set is a list without duplicates (\<^verbatim>\<open>add\<close> is \<^const>\<open>List.insert\<close>,
  \<^verbatim>\<open>discard\<close> is \<^const>\<open>removeAll\<close>, \<^verbatim>\<open>len\<close> is \<^const>\<open>length\<close>); the dictionary
  \<^verbatim>\<open>task_results\<close> is an association list in insertion order, and
  \<^verbatim>\<open>d[k] = v\<close> is \<open>dict_set\<close>.
\<close>

datatype OrchestrationState =
  OS_INITIALIZING | OS_READY | OS_EXECUTING | OS_PAUSED | OS_COMPLETED | OS_FAILED | OS_CANCELLED

record ExecutionSession =
  session_id :: string
  execution_graph :: ExecutionGraph
  current_layer :: nat
  state :: OrchestrationState
  completed_tasks :: "string list"
  failed_tasks_set :: "string list"
  running_tasks :: "string list"
  task_results :: "(string \<times> TaskResult) list"

fun dict_set :: "'k \<Rightarrow> 'v \<Rightarrow> ('k \<times> 'v) list \<Rightarrow> ('k \<times> 'v) list" where
  "dict_set k v [] = [(k, v)]"
| "dict_set k v ((k', v') # d) = (if k' = k then (k, v) # d else (k', v') # dict_set k v d)"

text \<open>
  What the collaborators of the orchestrator do when a task is run is a parameter: the
  outcome of \<^verbatim>\<open>acquire_agent\<close> (an exception, or the identifier of the agent), the
  outcome of \<^verbatim>\<open>agent.execute_task\<close> (an exception, or the dictionary it returns), and
  the outcome of the quality engine (an exception, or the results of its four validators,
  from which \<^const>\<open>validate_task_quality\<close> builds the quality result).
\<close>

record execution_result =
  success :: bool
  error :: "string option"
  artifacts_implementation :: "string list"
  artifacts_tests :: "string list"
  artifacts_documentation :: "string list"
  summary :: string

datatype worker_reply = WorkerRaised exn | WorkerReturned execution_result

record task_run =
  acquired :: "exn + string"
  reply :: worker_reply
  validators :: "exn + (TDDValidation \<times> SecurityValidation \<times> PerformanceValidation \<times>
                        CodeQualityValidation)"

text \<open>
  The list comprehension over the dictionary of the four gates in
  \<^verbatim>\<open>_execute_single_task\<close>: the names of the gates that did not pass, in the
  dictionary's order.
\<close>

definition failed_gates :: "QualityResult \<Rightarrow> string list" where
  "failed_gates q =
     map fst (filter (\<lambda>(gate, passed). \<not> passed)
       [(''tdd'', meets_requirements (tdd_validation q)),
        (''security'', meets_security_requirements (security_validation q)),
        (''performance'', performance_requirements_met (performance_validation q)),
        (''code_quality'', meets_quality_standards (code_quality_validation q))])"

text \<open>
  The quality gate step of \<^verbatim>\<open>_execute_single_task\<close> (the block under
  \<^verbatim>\<open>if self.quality_enforcement\<close>): the quality result is attached and, when a gate
  did not pass, the status becomes failed with the quality-gate error detail.
\<close>

definition apply_quality_gates :: "QualityResult \<Rightarrow> TaskResult \<Rightarrow> TaskResult" where
  "apply_quality_gates q r =
     (let r1 = r\<lparr>quality_validation := Some q\<rparr>
      in if \<not> all_quality_gates_passed q
         then r1\<lparr>tr_status := TS_FAILED,
                 tr_error_details := Some (QualityGateFailure (failed_gates q))\<rparr>
         else r1)"

text \<open>
  The session bookkeeping at the end of the inner \<^verbatim>\<open>try\<close> block of
  \<^verbatim>\<open>_execute_single_task\<close>.
\<close>

definition record_task_result :: "ExecutionSession \<Rightarrow> CompleteTask \<Rightarrow> TaskResult \<Rightarrow> ExecutionSession" where
  "record_task_result s task r =
     (let s1 = s\<lparr>running_tasks := removeAll (task_id task) (running_tasks s)\<rparr>;
          s2 = (if TaskResult_is_successful r
                then s1\<lparr>completed_tasks := List.insert (task_id task) (completed_tasks s1)\<rparr>
                else s1\<lparr>failed_tasks_set := List.insert (task_id task) (failed_tasks_set s1)\<rparr>)
      in s2\<lparr>task_results := dict_set (task_id task) r (task_results s2)\<rparr>)"

text \<open>
  The body of the outer \<^verbatim>\<open>try\<close> of \<^verbatim>\<open>_execute_single_task\<close>. \<open>Inl e\<close>: the
  body raised \<open>e\<close>; every raise of the body comes before its first change of the
  session. The first argument is \<^verbatim>\<open>self.quality_enforcement\<close>.
\<close>

definition single_task_body ::
  "bool \<Rightarrow> task_run \<Rightarrow> ExecutionSession \<Rightarrow> CompleteTask \<Rightarrow> exn + (ExecutionSession \<times> TaskResult)" where
  "single_task_body quality_enforcement run s task =
     (case acquired run of
        Inl e \<Rightarrow> Inl e
      | Inr agent \<Rightarrow>
          (case reply run of
             WorkerRaised e \<Rightarrow> Inl e
           | WorkerReturned er \<Rightarrow>
               if \<not> success er
               then Inl (Exception (''Task execution failed: '' @
                      (case error er of None \<Rightarrow> ''Unknown error'' | Some m \<Rightarrow> m)))
               else
                 (let r = \<lparr>tr_task_id = task_id task, tr_status = TS_COMPLETED,
                           tr_agent_id = Some agent,
                           implementation_artifacts = artifacts_implementation er,
                           test_artifacts = artifacts_tests er,
                           documentation_artifacts = artifacts_documentation er,
                           implementation_summary = Some (summary er),
                           quality_validation = None, tr_error_details = None\<rparr>
                  in if quality_enforcement
                     then (case validators run of
                             Inl e \<Rightarrow> Inl e
                           | Inr (t, sv, p, c) \<Rightarrow>
                               (let r' = apply_quality_gates
                                           (validate_task_quality (task_id task) t sv p c) r
                                in Inr (record_task_result s task r', r')))
                     else Inr (record_task_result s task r, r))))"

text \<open>
  \<^verbatim>\<open>_execute_single_task\<close>: the body, and the handler
  \<^verbatim>\<open>except Exception as e\<close> that turns a raise into a failed task result.
\<close>

definition failed_task_result :: "string \<Rightarrow> exn \<Rightarrow> TaskResult" where
  "failed_task_result tid e =
     \<lparr>tr_task_id = tid, tr_status = TS_FAILED, tr_agent_id = Some ''unknown'',
      implementation_artifacts = [], test_artifacts = [], documentation_artifacts = [],
      implementation_summary = None, quality_validation = None,
      tr_error_details = Some (ErrorMessage (str e))\<rparr>"

definition execute_single_task ::
  "bool \<Rightarrow> task_run \<Rightarrow> ExecutionSession \<Rightarrow> CompleteTask \<Rightarrow> ExecutionSession \<times> TaskResult" where
  "execute_single_task quality_enforcement run s task =
     (case single_task_body quality_enforcement run s task of
        Inr res \<Rightarrow> res
      | Inl e \<Rightarrow>
          (let s1 = s\<lparr>running_tasks := removeAll (task_id task) (running_tasks s)\<rparr>;
               s2 = s1\<lparr>failed_tasks_set := List.insert (task_id task) (failed_tasks_set s1)\<rparr>;
               failed_result = failed_task_result (task_id task) e
           in (s2\<lparr>task_results := dict_set (task_id task) failed_result (task_results s2)\<rparr>,
               failed_result)))"

text \<open>
  \<^verbatim>\<open>_verify_layer_dependencies\<close>: for each task of the layer the list
  \<^verbatim>\<open>task.depends_on\<close> is read, which raises; in a list that was read, the first
  dependency that is not among the completed tasks raises.
\<close>

fun verify_deps :: "string list \<Rightarrow> string \<Rightarrow> string list \<Rightarrow> exn option" where
  "verify_deps completed tid [] = None"
| "verify_deps completed tid (dep_id # deps) =
     (if dep_id \<notin> set completed
      then Some (ParallelExecutionError
             (''Dependency not satisfied: task '' @ tid @ '' depends on '' @ dep_id @
              '' which has not completed successfully''))
      else verify_deps completed tid deps)"

fun verify_layer_dependencies :: "ExecutionSession \<Rightarrow> CompleteTask list \<Rightarrow> exn option" where
  "verify_layer_dependencies s [] = None"
| "verify_layer_dependencies s (task # ts) =
     (case depends_on task of
        Inl e \<Rightarrow> Some e
      | Inr deps \<Rightarrow>
          (case verify_deps (completed_tasks s) (task_id task) deps of
             Some e \<Rightarrow> Some e
           | None \<Rightarrow> verify_layer_dependencies s ts))"

text \<open>
  \<^verbatim>\<open>asyncio.gather(*task_coroutines, return_exceptions=True)\<close>: every launched
  coroutine is awaited and contributes one entry, a result or the exception it raised.
  The coroutines are taken to finish in launch order; each changes only the entries of
  the session that belong to its own task.
\<close>

fun gather ::
  "bool \<Rightarrow> (string \<Rightarrow> task_run) \<Rightarrow> ExecutionSession \<Rightarrow> CompleteTask list \<Rightarrow>
   ExecutionSession \<times> (exn + TaskResult) list" where
  "gather qe env s [] = (s, [])"
| "gather qe env s (task # ts) =
     (let (s1, r) = execute_single_task qe (env (task_id task)) s task;
          (s2, rs) = gather qe env s1 ts
      in (s2, Inr r # rs))"

text \<open>
  The last loop of \<^verbatim>\<open>_execute_layer\<close>: an exception among the gathered entries
  becomes a failed result for \<^verbatim>\<open>layer.tasks[i]\<close>; the index \<open>i\<close> counts the gathered
  entries and is below the number of tasks of the layer.
\<close>

fun convert_results :: "CompleteTask list \<Rightarrow> nat \<Rightarrow> (exn + TaskResult) list \<Rightarrow> TaskResult list" where
  "convert_results lts i [] = []"
| "convert_results lts i (Inl e # rs) =
     failed_task_result (task_id (lts ! i)) e # convert_results lts (Suc i) rs"
| "convert_results lts i (Inr r # rs) = r # convert_results lts (Suc i) rs"

text \<open>
  \<^verbatim>\<open>_execute_layer\<close>: the dependency check, which may raise, and then the fan-out.
  \<open>layer_fan_out\<close> is the body of \<^verbatim>\<open>_execute_layer\<close> after the check: the tasks
  to launch are chosen, and marked running, before any coroutine starts; the coroutines
  are gathered; the gathered entries are converted.
\<close>

definition launched :: "ExecutionSession \<Rightarrow> ExecutionLayer \<Rightarrow> CompleteTask list" where
  "launched s layer = filter (\<lambda>task. task_id task \<notin> set (completed_tasks s)) (layer_tasks layer)"

definition layer_fan_out ::
  "bool \<Rightarrow> (string \<Rightarrow> task_run) \<Rightarrow> ExecutionSession \<Rightarrow> ExecutionLayer \<Rightarrow>
   ExecutionSession \<times> TaskResult list" where
  "layer_fan_out qe env s layer =
     (let s1 = s\<lparr>running_tasks :=
                   fold (\<lambda>task. List.insert (task_id task)) (launched s layer) (running_tasks s)\<rparr>;
          (s2, layer_results) = gather qe env s1 (launched s layer)
      in (s2, convert_results (layer_tasks layer) 0 layer_results))"

definition execute_layer ::
  "bool \<Rightarrow> (string \<Rightarrow> task_run) \<Rightarrow> ExecutionSession \<Rightarrow> ExecutionLayer \<Rightarrow>
   exn + (ExecutionSession \<times> TaskResult list)" where
  "execute_layer qe env s layer =
     (case verify_layer_dependencies s (layer_tasks layer) of
        Some e \<Rightarrow> Inl e
      | None \<Rightarrow> Inr (layer_fan_out qe env s layer))"

text \<open>\<^verbatim>\<open>_process_layer_results\<close>\<close>

definition process_layer_results :: "TaskResult list \<Rightarrow> bool" where
  "process_layer_results results =
     (let successful = length (filter TaskResult_is_successful results);
          n = length results;
          success_rate = (if n > 0 then real successful / real n else 0)
      in success_rate \<ge> 0.8)"

text \<open>
  The layer loop of \<^verbatim>\<open>_execute_session\<close> with its \<^verbatim>\<open>try\<close>: the result is the
  session and the list \<^verbatim>\<open>execution_errors\<close>. The test of the \<^verbatim>\<open>break\<close> is
  \<^verbatim>\<open>not layer_success and not execution_layers[layer_index:]\<close>; the slice is
  \<^const>\<open>drop\<close>.
\<close>

fun layer_loop ::
  "bool \<Rightarrow> (string \<Rightarrow> task_run) \<Rightarrow> nat \<Rightarrow> ExecutionLayer list \<Rightarrow> ExecutionSession \<Rightarrow>
   ExecutionSession \<times> string list" where
  "layer_loop qe env layer_index [] s = (s, [])"
| "layer_loop qe env layer_index (layer # rest) s =
     (let s0 = s\<lparr>current_layer := layer_index\<rparr>
      in case execute_layer qe env s0 layer of
           Inl e \<Rightarrow> (s0\<lparr>state := OS_FAILED\<rparr>, [str e])
         | Inr (s1, layer_results) \<Rightarrow>
             (let layer_success = process_layer_results layer_results
              in if \<not> layer_success \<and>
                    drop layer_index (execution_layers (execution_graph s1)) = []
                 then (s1, [])
                 else layer_loop qe env (Suc layer_index) rest s1))"

text \<open>
  \<^verbatim>\<open>_create_execution_result\<close>. The keyword arguments are evaluated before the
  constructor runs, so the division by the number of layers comes first.
\<close>

definition create_execution_result :: "ExecutionSession \<Rightarrow> string list \<Rightarrow> exn + ExecutionResult" where
  "create_execution_result s execution_errors =
     (let successful_count = int (length (completed_tasks s));
          failed_count = int (length (failed_tasks_set s));
          n = total_tasks (execution_graph s);
          cancelled_count = n - successful_count - failed_count;
          layers = execution_layers (execution_graph s)
      in if length layers = 0 then Inl (ZeroDivisionError ''division by zero'')
         else (case new_ExecutionResult (session_id s) n successful_count failed_count
                      cancelled_count (map snd (task_results s))
                      (real_of_int n / real (length layers)) execution_errors of
                 Inl e \<Rightarrow> Inl e
               | Inr r \<Rightarrow> Inr (update_task_counts r)))"

text \<open>
  \<^verbatim>\<open>_execute_session\<close>: the loop runs over the layers of the session's graph; an
  exception of \<^verbatim>\<open>_create_execution_result\<close> is outside the \<^verbatim>\<open>try\<close> and leaves
  the function.
\<close>

definition execute_session ::
  "bool \<Rightarrow> (string \<Rightarrow> task_run) \<Rightarrow> ExecutionSession \<Rightarrow> exn + (ExecutionResult \<times> ExecutionSession)" where
  "execute_session qe env s =
     (let (s1, execution_errors) =
            layer_loop qe env 0 (execution_layers (execution_graph s)) (s\<lparr>state := OS_EXECUTING\<rparr>)
      in case create_execution_result s1 execution_errors of
           Inl e \<Rightarrow> Inl e
         | Inr r \<Rightarrow>
             if ExecutionResult_is_successful r
             then Inr (r, s1\<lparr>state := OS_COMPLETED\<rparr>)
             else Inr (r, s1\<lparr>state := OS_FAILED\<rparr>))"

text \<open>
  The constructor of the dataclass \<^verbatim>\<open>ExecutionSession\<close> with its defaults.
\<close>

definition new_ExecutionSession :: "string \<Rightarrow> ExecutionGraph \<Rightarrow> ExecutionSession" where
  "new_ExecutionSession sid g =
     \<lparr>session_id = sid, execution_graph = g, current_layer = 0, state = OS_INITIALIZING,
      completed_tasks = [], failed_tasks_set = [], running_tasks = [], task_results = []\<rparr>"

text \<open>
  \<^verbatim>\<open>_create_execution_session\<close>. The session identifier comes from the clock and
  is a parameter. The arguments of the constructor are evaluated before it runs; among
  them is the dictionary of graph metrics with the entry
  \<^verbatim>\<open>"estimated_duration": execution_graph.total_estimated_duration_minutes\<close>.
\<close>

definition create_execution_session :: "string \<Rightarrow> ExecutionGraph \<Rightarrow> exn + ExecutionSession" where
  "create_execution_session sid g =
     (case total_estimated_duration_minutes g of
        Inl e \<Rightarrow> Inl e
      | Inr estimated_duration \<Rightarrow> Inr (new_ExecutionSession sid g))"

text \<open>
  \<^verbatim>\<open>execute_implementation_plan\<close>: the session is created, the monitor is started
  (\<open>started\<close> is the exception it raises, if any), the session is executed; the handler
  \<^verbatim>\<open>except Exception as e\<close> wraps whatever was raised.
\<close>

definition execute_implementation_plan ::
  "bool \<Rightarrow> (string \<Rightarrow> task_run) \<Rightarrow> string \<Rightarrow> exn option \<Rightarrow> ExecutionGraph \<Rightarrow> exn + ExecutionResult" where
  "execute_implementation_plan qe env sid started g =
     (case (case create_execution_session sid g of
              Inl e \<Rightarrow> Inl e
            | Inr session \<Rightarrow>
                (case started of
                   Some e \<Rightarrow> Inl e
                 | None \<Rightarrow> execute_session qe env session)) of
        Inl e \<Rightarrow> Inl (ParallelExecutionError (''Failed to execute implementation plan: '' @ str e))
      | Inr (r, s) \<Rightarrow> Inr r)"

section \<open>Acyclicity check (src/models/execution_graph.py)\<close>

text \<open>
  \<^verbatim>\<open>DependencyGraph.validate_acyclic\<close>. The two dictionaries \<^verbatim>\<open>graph\<close> and
  \<^verbatim>\<open>in_degree\<close> have the task identifiers as keys; an edge with an endpoint that is
  not a key raises \<^verbatim>\<open>KeyError\<close>. The first loop fills them from the blocking edges.
\<close>

fun build_graph ::
  "TaskDependency list \<Rightarrow> (string \<times> string list) list \<times> (string \<times> int) list \<Rightarrow>
   exn + ((string \<times> string list) list \<times> (string \<times> int) list)" where
  "build_graph [] (graph, in_degree) = Inr (graph, in_degree)"
| "build_graph (dep # deps) (graph, in_degree) =
     (if is_blocking dep
      then (case map_of graph (to_task_id dep) of
              None \<Rightarrow> Inl (KeyError (to_task_id dep))
            | Some ns \<Rightarrow>
                (case map_of in_degree (from_task_id dep) of
                   None \<Rightarrow> Inl (KeyError (from_task_id dep))
                 | Some n \<Rightarrow>
                     build_graph deps
                       (dict_set (to_task_id dep) (ns @ [from_task_id dep]) graph,
                        dict_set (from_task_id dep) (n + 1) in_degree)))
      else build_graph deps (graph, in_degree))"

text \<open>
  The inner loop over \<^verbatim>\<open>graph[current]\<close>: each neighbour loses one from its
  in-degree and joins the queue when it reaches 0.
\<close>

fun relax ::
  "string list \<Rightarrow> string list \<times> (string \<times> int) list \<Rightarrow>
   exn + (string list \<times> (string \<times> int) list)" where
  "relax [] (queue, in_degree) = Inr (queue, in_degree)"
| "relax (neighbor # ns) (queue, in_degree) =
     (case map_of in_degree neighbor of
        None \<Rightarrow> Inl (KeyError neighbor)
      | Some n \<Rightarrow>
          relax ns (if n - 1 = 0 then queue @ [neighbor] else queue,
                    dict_set neighbor (n - 1) in_degree))"

text \<open>
  The measure of the queue loop: the length of the queue plus the number of entries of
  \<^verbatim>\<open>in_degree\<close> that are positive. A neighbour joins the queue only when its entry
  goes from 1 to 0.
\<close>

definition positive_entries :: "(string \<times> int) list \<Rightarrow> nat" where
  "positive_entries d = length (filter (\<lambda>(k, v). 0 < v) d)"

lemma positive_entries_dict_set:
  "map_of d k = Some v \<Longrightarrow>
   positive_entries (dict_set k w d) + (if 0 < v then 1 else 0) =
   positive_entries d + (if 0 < w then 1 else 0)"
proof (induction d)
  case Nil
  then show ?case by simp
next
  case (Cons x d)
  obtain k' v' where x: "x = (k', v')" by (cases x)
  show ?case
  proof (cases "k' = k")
    case True
    then show ?thesis using Cons.prems by (simp add: x positive_entries_def)
  next
    case False
    then have "map_of d k = Some v" using Cons.prems by (simp add: x)
    from Cons.IH [OF this] show ?thesis using False by (simp add: x positive_entries_def)
  qed
qed

lemma relax_measure:
  "relax ns (q, d) = Inr (q', d') \<Longrightarrow>
   length q' + positive_entries d' \<le> length q + positive_entries d"
proof (induction ns arbitrary: q d)
  case Nil
  then show ?case by simp
next
  case (Cons n ns)
  from Cons.prems obtain v where v: "map_of d n = Some v"
    by (auto split: option.splits)
  let ?q1 = "if v - 1 = 0 then q @ [n] else q"
  let ?d1 = "dict_set n (v - 1) d"
  have r: "relax ns (?q1, ?d1) = Inr (q', d')" using Cons.prems v by simp
  have "length ?q1 + positive_entries ?d1 \<le> length q + positive_entries d"
  proof (cases "v = 1")
    case True
    with positive_entries_dict_set [OF v, of 0] show ?thesis by simp
  next
    case False
    with positive_entries_dict_set [OF v, of "v - 1"] show ?thesis
      by (auto split: if_splits)
  qed
  with Cons.IH [OF r] show ?case by linarith
qed

text \<open>
  The queue loop: \<^verbatim>\<open>queue.pop(0)\<close>, the count of processed tasks, and the inner
  loop.
\<close>

function kahn_loop ::
  "(string \<times> string list) list \<Rightarrow> string list \<Rightarrow> (string \<times> int) list \<Rightarrow> nat \<Rightarrow> exn + nat" where
  "kahn_loop graph [] in_degree processed_count = Inr processed_count"
| "kahn_loop graph (current # queue) in_degree processed_count =
     (case map_of graph current of
        None \<Rightarrow> Inl (KeyError current)
      | Some ns \<Rightarrow>
          (case relax ns (queue, in_degree) of
             Inl e \<Rightarrow> Inl e
           | Inr (queue', in_degree') \<Rightarrow>
               kahn_loop graph queue' in_degree' (processed_count + 1)))"
  by pat_completeness auto
termination
proof (relation "measure (\<lambda>(g, q, d, n). length q + positive_entries d)")
  show "wf (measure (\<lambda>(g, q, d, n). length q + positive_entries d))" by simp
next
  fix graph :: "(string \<times> string list) list" and current queue in_degree
    and processed_count :: nat and x2 x2a x y
  assume "map_of graph current = Some x2" "relax x2 (queue, in_degree) = Inr x2a" "(x, y) = x2a"
  then have "relax x2 (queue, in_degree) = Inr (x, y)" by simp
  from relax_measure [OF this]
  show "((graph, x, y, processed_count + 1), graph, current # queue, in_degree, processed_count)
          \<in> measure (\<lambda>(g, q, d, n). length q + positive_entries d)"
    by simp
qed

text \<open>
  The whole method. The queue starts with the tasks of in-degree 0, in the order of
  \<^verbatim>\<open>self.tasks\<close>; the graph is acyclic when every task was processed. The assignment
  to \<^verbatim>\<open>self.is_acyclic\<close> is left out: nothing modelled reads it.
\<close>

definition validate_acyclic :: "DependencyGraph \<Rightarrow> exn + bool" where
  "validate_acyclic g =
     (let graph = fold (\<lambda>t. dict_set t []) (tasks g) [];
          in_degree = fold (\<lambda>t. dict_set t 0) (tasks g) []
      in case build_graph (dependencies g) (graph, in_degree) of
           Inl e \<Rightarrow> Inl e
         | Inr (graph', in_degree') \<Rightarrow>
             (let queue = filter (\<lambda>t. map_of in_degree' t = Some 0) (tasks g)
              in case kahn_loop graph' queue in_degree' 0 of
                   Inl e \<Rightarrow> Inl e
                 | Inr processed_count \<Rightarrow> Inr (processed_count = length (tasks g))))"

text \<open>
  \<^verbatim>\<open>ExecutionLayer.get_task_ids\<close>
\<close>

definition get_task_ids :: "ExecutionLayer \<Rightarrow> string list" where
  "get_task_ids layer = map task_id (layer_tasks layer)"

section \<open>Dependency analyzer (src/analysis/dependency_analyzer.py)\<close>

text \<open>
  \<^verbatim>\<open>_validate_dependency_graph\<close>: the loop over the edges that checks both
  endpoints, then the acyclicity check.
\<close>

fun check_references :: "string list \<Rightarrow> TaskDependency list \<Rightarrow> exn option" where
  "check_references valid_task_ids [] = None"
| "check_references valid_task_ids (dependency # deps) =
     (if from_task_id dependency \<notin> set valid_task_ids
      then Some (DependencyAnalysisError
             (''Invalid dependency: '' @ from_task_id dependency @ '' not in task list''))
      else if to_task_id dependency \<notin> set valid_task_ids
      then Some (DependencyAnalysisError
             (''Invalid dependency: '' @ to_task_id dependency @ '' not in task list''))
      else check_references valid_task_ids deps)"

definition validate_dependency_graph :: "DependencyGraph \<Rightarrow> string list \<Rightarrow> exn option" where
  "validate_dependency_graph g valid_task_ids =
     (case check_references valid_task_ids (dependencies g) of
        Some e \<Rightarrow> Some e
      | None \<Rightarrow>
          (case validate_acyclic g of
             Inl e \<Rightarrow> Some e
           | Inr ok \<Rightarrow>
               if \<not> ok
               then Some (CircularDependencyError ''Circular dependencies detected in task graph'')
               else None))"

text \<open>
  \<^verbatim>\<open>_extract_explicit_dependencies\<close>. The inner loop runs over the list read from
  \<^verbatim>\<open>task.depends_on\<close>: an identifier that names no task of the list is skipped,
  any other gives a blocking edge of type \<^verbatim>\<open>DependencyType.EXPLICIT\<close>. The outer
  loop runs over the tasks; \<open>all_tasks\<close> is the whole list.
\<close>

fun explicit_dependencies_of ::
  "CompleteTask list \<Rightarrow> CompleteTask \<Rightarrow> string list \<Rightarrow> exn + TaskDependency list" where
  "explicit_dependencies_of all_tasks task [] = Inr []"
| "explicit_dependencies_of all_tasks task (dep_id # dep_ids) =
     (if dep_id \<notin> set (map task_id all_tasks)
      then explicit_dependencies_of all_tasks task dep_ids
      else (case DependencyType_EXPLICIT of
              Inl e \<Rightarrow> Inl e
            | Inr explicit \<Rightarrow>
                (case explicit_dependencies_of all_tasks task dep_ids of
                   Inl e \<Rightarrow> Inl e
                 | Inr found \<Rightarrow>
                     Inr (\<lparr>from_task_id = task_id task, to_task_id = dep_id,
                           dependency_type = explicit, is_blocking = True\<rparr> # found))))"

fun extract_explicit_loop ::
  "CompleteTask list \<Rightarrow> CompleteTask list \<Rightarrow> exn + TaskDependency list" where
  "extract_explicit_loop all_tasks [] = Inr []"
| "extract_explicit_loop all_tasks (task # ts) =
     (case depends_on task of
        Inl e \<Rightarrow> Inl e
      | Inr dep_ids \<Rightarrow>
          (case explicit_dependencies_of all_tasks task dep_ids of
             Inl e \<Rightarrow> Inl e
           | Inr found \<Rightarrow>
               (case extract_explicit_loop all_tasks ts of
                  Inl e \<Rightarrow> Inl e
                | Inr others \<Rightarrow> Inr (found @ others))))"

definition extract_explicit_dependencies :: "CompleteTask list \<Rightarrow> exn + TaskDependency list" where
  "extract_explicit_dependencies ts = extract_explicit_loop ts ts"

text \<open>
  \<^verbatim>\<open>str.lower\<close> and the substring test \<^verbatim>\<open>sub in s\<close>, for ASCII text.
\<close>

definition lower_char :: "char \<Rightarrow> char" where
  "lower_char c =
     (case map_of (zip ''ABCDEFGHIJKLMNOPQRSTUVWXYZ'' ''abcdefghijklmnopqrstuvwxyz'') c of
        Some l \<Rightarrow> l
      | None \<Rightarrow> c)"

definition lower :: "string \<Rightarrow> string" where
  "lower s = map lower_char s"

fun starts_with :: "string \<Rightarrow> string \<Rightarrow> bool" where
  "starts_with s [] = True"
| "starts_with [] (c # cs) = False"
| "starts_with (x # xs) (c # cs) = (x = c \<and> starts_with xs cs)"

fun contains :: "string \<Rightarrow> string \<Rightarrow> bool" where
  "contains [] sub = (sub = [])"
| "contains (x # xs) sub = (starts_with (x # xs) sub \<or> contains xs sub)"

text \<open>
  \<^verbatim>\<open>_analyze_file_dependencies\<close>. The first loop fills \<^verbatim>\<open>file_creators\<close> (a
  dictionary: a later creator of the same file replaces an earlier one) and
  \<^verbatim>\<open>file_consumers\<close> (a \<^verbatim>\<open>defaultdict(list)\<close>, a total function with default
  the empty list); a description with "creat" or "implement" in its lower-case form
  marks a creator. The second loop makes every consumer of a file depend on its
  creator, with a blocking edge of type \<^verbatim>\<open>DependencyType.FILE\<close>.
\<close>

definition note_file ::
  "string \<Rightarrow> string \<times> string \<Rightarrow> (string \<times> string) list \<times> (string \<Rightarrow> string list) \<Rightarrow>
   (string \<times> string) list \<times> (string \<Rightarrow> string list)" where
  "note_file tid = (\<lambda>(file_path, description) (file_creators, file_consumers).
     if contains (lower description) ''creat'' \<or> contains (lower description) ''implement''
     then (dict_set file_path tid file_creators, file_consumers)
     else (file_creators, file_consumers(file_path := file_consumers file_path @ [tid])))"

definition analyze_file_dependencies :: "CompleteTask list \<Rightarrow> TaskDependency list" where
  "analyze_file_dependencies ts =
     (let (file_creators, file_consumers) =
            fold (\<lambda>task. fold (note_file (task_id task)) (file_locations task)) ts ([], \<lambda>f. [])
      in concat (map (\<lambda>(file_path, creator_id).
           map (\<lambda>consumer_id. \<lparr>from_task_id = consumer_id, to_task_id = creator_id,
                                 dependency_type = FILE, is_blocking = True\<rparr>)
             (filter (\<lambda>consumer_id. creator_id \<noteq> consumer_id) (file_consumers file_path)))
           file_creators))"

text \<open>
  \<^verbatim>\<open>analyze_task_dependencies\<close>. The explicit dependencies are extracted first.
  The implicit dependencies are those of the files, followed by those of two keyword
  heuristics over titles and background text
  (\<^verbatim>\<open>_analyze_context_dependencies\<close>, \<^verbatim>\<open>_analyze_architectural_dependencies\<close>),
  whose outcome, a list of edges or an exception, is the parameter \<open>heuristics\<close>. The
  whole body is inside
  \<^verbatim>\<open>try: ... except Exception as e: raise DependencyAnalysisError(...)\<close>.
\<close>

definition analyze_task_dependencies ::
  "CompleteTask list \<Rightarrow> exn + TaskDependency list \<Rightarrow> exn + DependencyGraph" where
  "analyze_task_dependencies ts heuristics =
     (case (let task_ids = map task_id ts
            in case extract_explicit_dependencies ts of
                 Inl e \<Rightarrow> Inl e
               | Inr explicit_dependencies \<Rightarrow>
                   (case heuristics of
                      Inl e \<Rightarrow> Inl e
                    | Inr keyword_dependencies \<Rightarrow>
                        (let implicit_dependencies =
                               analyze_file_dependencies ts @ keyword_dependencies;
                             all_dependencies = explicit_dependencies @ implicit_dependencies;
                             g = \<lparr>tasks = task_ids, dependencies = all_dependencies\<rparr>
                         in case validate_dependency_graph g task_ids of
                              Some e \<Rightarrow> Inl e
                            | None \<Rightarrow> Inr g))) of
        Inl e \<Rightarrow> Inl (DependencyAnalysisError (''Failed to analyze dependencies: '' @ str e))
      | Inr g \<Rightarrow> Inr g)"

text \<open>
  Python's \<^verbatim>\<open>max\<close> over the estimated durations of a layer's tasks. The first
  value is the running maximum; every further value is compared with it, and comparing
  with \<^verbatim>\<open>None\<close> raises \<^verbatim>\<open>TypeError\<close>. A single value is returned without
  any comparison.
\<close>

fun python_max_from :: "int option \<Rightarrow> int option list \<Rightarrow> exn + int option" where
  "python_max_from m [] = Inr m"
| "python_max_from m (x # xs) =
     (case (x, m) of
        (Some a, Some b) \<Rightarrow> python_max_from (if a > b then Some a else Some b) xs
      | _ \<Rightarrow> Inl (TypeError ''> not supported between these instances''))"

text \<open>
  The list comprehension \<^verbatim>\<open>[task_lookup[task_id] for task_id in current_layer_tasks]\<close>
  and the dictionary \<^verbatim>\<open>{task.task_id: task for task in tasks}\<close> that
  \<^verbatim>\<open>create_execution_graph\<close> passes as \<^verbatim>\<open>task_lookup\<close> (a later task with the
  same identifier replaces an earlier one).
\<close>

fun lookup_all :: "(string \<rightharpoonup> CompleteTask) \<Rightarrow> string list \<Rightarrow> exn + CompleteTask list" where
  "lookup_all task_lookup [] = Inr []"
| "lookup_all task_lookup (t # ts) =
     (case task_lookup t of
        None \<Rightarrow> Inl (KeyError t)
      | Some task \<Rightarrow>
          (case lookup_all task_lookup ts of
             Inl e \<Rightarrow> Inl e
           | Inr found \<Rightarrow> Inr (task # found)))"

definition task_lookup_of :: "CompleteTask list \<Rightarrow> (string \<rightharpoonup> CompleteTask)" where
  "task_lookup_of ts = map_of (map (\<lambda>task. (task_id task, task)) (rev ts))"

text \<open>
  The in-degrees and the adjacency lists are \<^verbatim>\<open>defaultdict\<close>s: total functions
  with defaults 0 and the empty list. \<open>decrement\<close> is the inner loop
  \<^verbatim>\<open>for dependent_id in adj_list[task_id]: in_degree[dependent_id] -= 1\<close>.
\<close>

definition decrement :: "string list \<Rightarrow> (string \<Rightarrow> int) \<Rightarrow> (string \<Rightarrow> int)" where
  "decrement dependents in_degree = fold (\<lambda>dependent_id d. d(dependent_id := d dependent_id - 1)) dependents in_degree"

text \<open>
  The \<^verbatim>\<open>while remaining_tasks\<close> loop of \<^verbatim>\<open>_generate_execution_layers\<close>. The
  set \<^verbatim>\<open>remaining_tasks\<close> is a list without duplicates; Python does not fix the
  order in which a set is iterated, and the order inside a layer is that of this list.
  The list of layers that the source appends to is built from the front.
\<close>

function layers_loop ::
  "(string \<rightharpoonup> CompleteTask) \<Rightarrow> (string \<Rightarrow> string list) \<Rightarrow> nat \<Rightarrow> string list \<Rightarrow>
   (string \<Rightarrow> int) \<Rightarrow> exn + ExecutionLayer list" where
  "layers_loop task_lookup adj_list layer_index remaining_tasks in_degree =
     (if remaining_tasks = [] then Inr []
      else
        (let current_layer_tasks = filter (\<lambda>t. in_degree t = 0) remaining_tasks
         in if current_layer_tasks = []
            then Inl (DependencyAnalysisError
                   ''Cannot create execution layers - possible circular dependency'')
            else
              (case lookup_all task_lookup current_layer_tasks of
                 Inl e \<Rightarrow> Inl e
               | Inr found \<Rightarrow>
                   (case (case map estimated_duration_minutes found of
                            [] \<Rightarrow> Inr (Some 0)
                          | d # ds \<Rightarrow> python_max_from d ds) of
                      Inl e \<Rightarrow> Inl e
                    | Inr max_duration \<Rightarrow>
                        (case layers_loop task_lookup adj_list (layer_index + 1)
                                (filter (\<lambda>t. t \<notin> set current_layer_tasks) remaining_tasks)
                                (fold (\<lambda>t. decrement (adj_list t)) current_layer_tasks in_degree) of
                           Inl e \<Rightarrow> Inl e
                         | Inr layers \<Rightarrow>
                             Inr (\<lparr>layer_number = int layer_index, layer_tasks = found,
                                   layer_estimated_duration_minutes = max_duration\<rparr> # layers))))))"
  by pat_completeness auto
termination
proof (relation "measure (\<lambda>(l, a, n, r, d). length r)")
  show "wf (measure (\<lambda>(l, a, n, r, d). length r))" by simp
next
  fix task_lookup :: "string \<rightharpoonup> CompleteTask" and adj_list :: "string \<Rightarrow> string list"
    and layer_index :: nat and remaining_tasks :: "string list" and in_degree :: "string \<Rightarrow> int"
    and x :: "string list"
  assume ne: "remaining_tasks \<noteq> []"
    and x: "x = filter (\<lambda>t. in_degree t = 0) remaining_tasks" and xne: "x \<noteq> []"
  from xne obtain t where "t \<in> set x" by (cases x) auto
  then have "t \<in> set remaining_tasks" "\<not> (t \<notin> set x)" using x by auto
  then have "length (filter (\<lambda>t. t \<notin> set x) remaining_tasks) < length remaining_tasks"
    by (metis (mono_tags, lifting) length_filter_less)
  then show "((task_lookup, adj_list, layer_index + 1,
           filter (\<lambda>t. t \<notin> set x) remaining_tasks,
           fold (\<lambda>t. decrement (adj_list t)) x in_degree),
          task_lookup, adj_list, layer_index, remaining_tasks, in_degree)
         \<in> measure (\<lambda>(l, a, n, r, d). length r)"
    by simp
qed

declare layers_loop.simps [simp del]

text \<open>
  The loop that fills \<^verbatim>\<open>adj_list\<close> and \<^verbatim>\<open>in_degree\<close> from the blocking edges,
  and \<^verbatim>\<open>_generate_execution_layers\<close> itself.
\<close>

definition add_edge ::
  "TaskDependency \<Rightarrow> (string \<Rightarrow> string list) \<times> (string \<Rightarrow> int) \<Rightarrow>
   (string \<Rightarrow> string list) \<times> (string \<Rightarrow> int)" where
  "add_edge dependency = (\<lambda>(adj_list, in_degree).
     if is_blocking dependency
     then (adj_list(to_task_id dependency :=
                      adj_list (to_task_id dependency) @ [from_task_id dependency]),
           in_degree(from_task_id dependency := in_degree (from_task_id dependency) + 1))
     else (adj_list, in_degree))"

definition generate_execution_layers ::
  "DependencyGraph \<Rightarrow> (string \<rightharpoonup> CompleteTask) \<Rightarrow> exn + ExecutionLayer list" where
  "generate_execution_layers g task_lookup =
     (let (adj_list, in_degree) = fold add_edge (dependencies g) (\<lambda>t. [], \<lambda>t. 0)
      in layers_loop task_lookup adj_list 0 (remdups (tasks g)) in_degree)"

text \<open>
  Notions for the statements about layering: the blocking edges as a relation (an edge
  leads from a task to a task it depends on), the closed form of \<^verbatim>\<open>adj_list\<close>, and
  the number of blocking edges from a task into a set of tasks.
\<close>

definition blocking_edges :: "TaskDependency list \<Rightarrow> (string \<times> string) set" where
  "blocking_edges D = set (map (\<lambda>dep. (from_task_id dep, to_task_id dep)) (filter is_blocking D))"

definition adj_of :: "TaskDependency list \<Rightarrow> string \<Rightarrow> string list" where
  "adj_of D t = map from_task_id (filter (\<lambda>dep. is_blocking dep \<and> to_task_id dep = t) D)"

definition pending :: "TaskDependency list \<Rightarrow> string set \<Rightarrow> string \<Rightarrow> nat" where
  "pending D R t =
     length (filter (\<lambda>dep. is_blocking dep \<and> from_task_id dep = t \<and> to_task_id dep \<in> R) D)"

section \<open>Agent coordinator (src/execution/agent_coordinator.py)\<close>

text \<open>
  An agent is an object shared by reference between the coordinator's dictionary
  \<^verbatim>\<open>agents\<close> and its users; in the model the dictionary is the store and a reference
  is the key of the entry. \<^verbatim>\<open>current_tasks\<close> is a set, a list without duplicates
  here. Metrics are left out: no decision reads them.
\<close>

datatype AgentState = AS_INITIALIZING | AS_IDLE | AS_BUSY | AS_PAUSED | AS_ERROR | AS_SHUTDOWN

record ExecutionAgent =
  agent_id :: string
  agent_state :: AgentState
  current_tasks :: "string list"
  max_concurrent_tasks :: int

text \<open>
  \<^verbatim>\<open>ExecutionAgent.is_available\<close> and \<^verbatim>\<open>ExecutionAgent.get_load_factor\<close>
\<close>

definition is_available :: "ExecutionAgent \<Rightarrow> bool" where
  "is_available a =
     (agent_state a = AS_IDLE \<and> int (length (current_tasks a)) < max_concurrent_tasks a)"

definition get_load_factor :: "ExecutionAgent \<Rightarrow> real" where
  "get_load_factor a =
     (if max_concurrent_tasks a = 0 then 1.0
      else real (length (current_tasks a)) / real_of_int (max_concurrent_tasks a))"

text \<open>
  The coordinator: three dictionaries, association lists in insertion order.
\<close>

record AgentCoordinator =
  agents :: "(string \<times> ExecutionAgent) list"
  agent_assignment :: "(string \<times> string) list"
  agent_sessions :: "(string \<times> string list) list"

fun dict_del :: "'k \<Rightarrow> ('k \<times> 'v) list \<Rightarrow> ('k \<times> 'v) list" where
  "dict_del k [] = []"
| "dict_del k ((k', v) # d) = (if k' = k then d else (k', v) # dict_del k d)"

text \<open>
  Python's \<^verbatim>\<open>min(available_agents, key=...)\<close> on a list with first element
  \<open>best\<close>: the first element with the least key.
\<close>

fun min_by :: "('a \<Rightarrow> real) \<Rightarrow> 'a \<Rightarrow> 'a list \<Rightarrow> 'a" where
  "min_by f best [] = best"
| "min_by f best (x # xs) = (if f x < f best then min_by f x xs else min_by f best xs)"

text \<open>
  \<^verbatim>\<open>_find_best_agent\<close>, over the items of \<^verbatim>\<open>agents\<close>.
\<close>

definition find_best_agent :: "AgentCoordinator \<Rightarrow> (string \<times> ExecutionAgent) option" where
  "find_best_agent c =
     (case filter (\<lambda>(k, a). is_available a) (agents c) of
        [] \<Rightarrow> None
      | x # xs \<Rightarrow> Some (min_by (\<lambda>(k, a). get_load_factor a) x xs))"

text \<open>
  \<^verbatim>\<open>acquire_agent\<close>. The body runs under \<^verbatim>\<open>self._coordination_lock\<close> and has no
  suspension point; it is one step here. \<^verbatim>\<open>self.agent_sessions[best_agent.agent_id]\<close>
  raises \<^verbatim>\<open>KeyError\<close> for a key that is absent.
\<close>

definition acquire_agent ::
  "AgentCoordinator \<Rightarrow> string \<Rightarrow> exn + ((string \<times> ExecutionAgent) \<times> AgentCoordinator)" where
  "acquire_agent c sid =
     (case find_best_agent c of
        None \<Rightarrow> Inl (AgentCoordinationError ''No agents available for task execution'')
      | Some (k, best_agent) \<Rightarrow>
          (let c1 = c\<lparr>agent_assignment := dict_set sid (agent_id best_agent) (agent_assignment c)\<rparr>
           in case map_of (agent_sessions c1) (agent_id best_agent) of
                None \<Rightarrow> Inl (KeyError (agent_id best_agent))
              | Some sessions \<Rightarrow>
                  Inr ((k, best_agent),
                       c1\<lparr>agent_sessions :=
                            dict_set (agent_id best_agent) (List.insert sid sessions)
                              (agent_sessions c1)\<rparr>)))"

text \<open>
  \<^verbatim>\<open>release_agent\<close>
\<close>

definition release_agent :: "AgentCoordinator \<Rightarrow> string \<Rightarrow> string \<Rightarrow> AgentCoordinator" where
  "release_agent c aid sid =
     (let c1 = (case map_of (agent_sessions c) aid of
                  None \<Rightarrow> c
                | Some sessions \<Rightarrow>
                    c\<lparr>agent_sessions := dict_set aid (removeAll sid sessions) (agent_sessions c)\<rparr>)
      in if map_of (agent_assignment c1) sid \<noteq> None
         then c1\<lparr>agent_assignment := dict_del sid (agent_assignment c1)\<rparr>
         else c1)"

text \<open>
  A change of the agent stored under key \<open>k\<close>.
\<close>

definition with_agent ::
  "string \<Rightarrow> (ExecutionAgent \<Rightarrow> ExecutionAgent) \<Rightarrow> AgentCoordinator \<Rightarrow> AgentCoordinator" where
  "with_agent k f c = c\<lparr>agents := map (\<lambda>(k', a). if k' = k then (k', f a) else (k', a)) (agents c)\<rparr>"

text \<open>
  \<^verbatim>\<open>DevelopmentAgent.execute_task\<close> changes the agent twice: before the work
  (\<^verbatim>\<open>self.state = AgentState.BUSY; self.current_tasks.add(task.task_id)\<close>) and in its
  \<^verbatim>\<open>finally\<close> block
  (\<^verbatim>\<open>self.state = AgentState.IDLE; self.current_tasks.discard(task.task_id)\<close>).
\<close>

definition execute_task_begin :: "string \<Rightarrow> ExecutionAgent \<Rightarrow> ExecutionAgent" where
  "execute_task_begin tid a =
     a\<lparr>agent_state := AS_BUSY, current_tasks := List.insert tid (current_tasks a)\<rparr>"

definition execute_task_end :: "string \<Rightarrow> ExecutionAgent \<Rightarrow> ExecutionAgent" where
  "execute_task_end tid a =
     a\<lparr>agent_state := AS_IDLE, current_tasks := removeAll tid (current_tasks a)\<rparr>"

text \<open>
  \<^verbatim>\<open>pause_all_tasks\<close>, \<^verbatim>\<open>cancel_all_tasks\<close>, \<^verbatim>\<open>cleanup_session\<close>,
  \<^verbatim>\<open>shutdown_all_agents\<close>
\<close>

definition pause_all_tasks :: "AgentCoordinator \<Rightarrow> string \<Rightarrow> AgentCoordinator" where
  "pause_all_tasks c sid =
     (case map_of (agent_assignment c) sid of
        None \<Rightarrow> c
      | Some aid \<Rightarrow> with_agent aid (\<lambda>a. a\<lparr>agent_state := AS_PAUSED\<rparr>) c)"

definition cancel_all_tasks :: "AgentCoordinator \<Rightarrow> string \<Rightarrow> AgentCoordinator" where
  "cancel_all_tasks c sid =
     (case map_of (agent_assignment c) sid of
        None \<Rightarrow> c
      | Some aid \<Rightarrow> with_agent aid (\<lambda>a. a\<lparr>current_tasks := [], agent_state := AS_IDLE\<rparr>) c)"

definition cleanup_session :: "AgentCoordinator \<Rightarrow> string \<Rightarrow> AgentCoordinator" where
  "cleanup_session c sid =
     (case map_of (agent_assignment c) sid of
        None \<Rightarrow> c
      | Some aid \<Rightarrow>
          (let c1 = (case map_of (agent_sessions c) aid of
                       None \<Rightarrow> c
                     | Some sessions \<Rightarrow>
                         c\<lparr>agent_sessions := dict_set aid (removeAll sid sessions) (agent_sessions c)\<rparr>)
           in c1\<lparr>agent_assignment := dict_del sid (agent_assignment c1)\<rparr>))"

definition shutdown_all_agents :: "AgentCoordinator \<Rightarrow> AgentCoordinator" where
  "shutdown_all_agents c = \<lparr>agents = [], agent_assignment = [], agent_sessions = []\<rparr>"

text \<open>
  The decimal digits of a number, for the f-string \<^verbatim>\<open>f"dev_agent_{i}"\<close>.
\<close>

function string_of_nat :: "nat \<Rightarrow> string" where
  "string_of_nat n =
     (if n < 10 then [''0123456789'' ! n]
      else string_of_nat (n div 10) @ [''0123456789'' ! (n mod 10)])"
  by pat_completeness auto
termination
  by (relation "measure id") auto

declare string_of_nat.simps [simp del]

text \<open>
  The constructor of \<^verbatim>\<open>DevelopmentAgent\<close> (capacity 1), \<^verbatim>\<open>ExecutionAgent.initialize\<close>,
  the constructor of the coordinator, and \<^verbatim>\<open>initialize_agent_pool\<close> with the body
  of its loop.
\<close>

definition DevelopmentAgent :: "string \<Rightarrow> ExecutionAgent" where
  "DevelopmentAgent aid =
     \<lparr>agent_id = aid, agent_state = AS_INITIALIZING, current_tasks = [],
      max_concurrent_tasks = 1\<rparr>"

definition initialize :: "ExecutionAgent \<Rightarrow> ExecutionAgent" where
  "initialize a = a\<lparr>agent_state := AS_IDLE\<rparr>"

definition new_AgentCoordinator :: AgentCoordinator where
  "new_AgentCoordinator = \<lparr>agents = [], agent_assignment = [], agent_sessions = []\<rparr>"

definition add_agent :: "nat \<Rightarrow> AgentCoordinator \<Rightarrow> AgentCoordinator" where
  "add_agent i c =
     (let aid = ''dev_agent_'' @ string_of_nat i;
          agent = initialize (DevelopmentAgent aid)
      in c\<lparr>agents := dict_set aid agent (agents c),
           agent_sessions := dict_set aid [] (agent_sessions c)\<rparr>)"

definition initialize_agent_pool :: "nat \<Rightarrow> AgentCoordinator \<Rightarrow> AgentCoordinator" where
  "initialize_agent_pool max_agents c = fold add_agent [0..<max_agents] c"

text \<open>
  The states of the pool. The coordinator is created, its pool is initialized, and the
  orchestrator then drives it: \<^verbatim>\<open>_execute_single_task\<close> calls \<^verbatim>\<open>acquire_agent\<close>
  and then \<^verbatim>\<open>agent.execute_task\<close>, and releases the agent at the end. Between the
  choice of the agent in \<^verbatim>\<open>acquire_agent\<close> and the first change of the agent in
  \<^verbatim>\<open>execute_task\<close> no coroutine is suspended (the lock is free, and
  \<^verbatim>\<open>validate_task_compatibility\<close> awaits nothing), so the two form one step,
  \<open>started\<close>; \<open>acquired\<close> alone is the case of an incompatible task, for which
  \<^verbatim>\<open>execute_task\<close> raises before it changes the agent. The end of a task, release,
  pause, cancel, clean-up and shutdown may come at any time and for any agent, task and
  session.
\<close>

inductive reachable :: "AgentCoordinator \<Rightarrow> bool" where
  created: "reachable new_AgentCoordinator"
| initialized: "reachable c \<Longrightarrow> reachable (initialize_agent_pool max_agents c)"
| acquired: "reachable c \<Longrightarrow> acquire_agent c sid = Inr ((k, a), c') \<Longrightarrow> reachable c'"
| started: "reachable c \<Longrightarrow> acquire_agent c sid = Inr ((k, a), c') \<Longrightarrow>
            reachable (with_agent k (execute_task_begin tid) c')"
| finished: "reachable c \<Longrightarrow> reachable (with_agent k (execute_task_end tid) c)"
| released: "reachable c \<Longrightarrow> reachable (release_agent c aid sid)"
| paused: "reachable c \<Longrightarrow> reachable (pause_all_tasks c sid)"
| cancelled: "reachable c \<Longrightarrow> reachable (cancel_all_tasks c sid)"
| cleaned: "reachable c \<Longrightarrow> reachable (cleanup_session c sid)"
| shut_down: "reachable c \<Longrightarrow> reachable (shutdown_all_agents c)"


text \<open>
  The invariant of the pool used in the proofs below: no agent holds more tasks than its
  capacity, capacities are positive, and every agent is registered in
  \<^verbatim>\<open>agent_sessions\<close>.
\<close>

definition pool_ok :: "AgentCoordinator \<Rightarrow> bool" where
  "pool_ok c =
     (\<forall>(k, a) \<in> set (agents c).
        int (length (current_tasks a)) \<le> max_concurrent_tasks a \<and>
        0 < max_concurrent_tasks a \<and>
        map_of (agent_sessions c) (agent_id a) \<noteq> None)"

section \<open>Concrete inputs\<close>

text \<open>
  Tasks, worker behaviours, layers and graphs on which the functions above are evaluated.
\<close>

definition task_A :: CompleteTask where
  "task_A = \<lparr>task_id = ''A'', title = ''Implement module A'', file_locations = [],
             estimated_duration_minutes = Some 30\<rparr>"


definition reply_ok :: execution_result where
  "reply_ok = \<lparr>success = True, error = None, artifacts_implementation = [],
               artifacts_tests = [], artifacts_documentation = [], summary = ''done''\<rparr>"

definition run_ok :: task_run where
  "run_ok = \<lparr>acquired = Inr ''dev_agent_0'', reply = WorkerReturned reply_ok,
             validators = Inl (QualityGateError ''unused'')\<rparr>"

definition graph_of :: "ExecutionLayer list \<Rightarrow> int \<Rightarrow> ExecutionGraph" where
  "graph_of layers n = \<lparr>dependency_graph = \<lparr>tasks = [], dependencies = []\<rparr>,
      execution_layers = layers, total_tasks = n, parallelization_factor = 1\<rparr>"

definition layer_of :: "int \<Rightarrow> CompleteTask list \<Rightarrow> ExecutionLayer" where
  "layer_of i ts = \<lparr>layer_number = i, layer_tasks = ts, layer_estimated_duration_minutes = None\<rparr>"


definition tdd_low_coverage :: TDDValidation where
  "tdd_low_coverage = \<lparr>tdd_status = QG_FAILED, test_coverage_percentage = 80,
     minimum_coverage_required = 95, test_count = 10, passing_tests = 10, failing_tests = 0,
     red_green_refactor_cycle_followed = True\<rparr>"

definition security_passing :: SecurityValidation where
  "security_passing = \<lparr>sec_status = QG_PASSED, vulnerability_scan_passed = True,
     input_validation_implemented = True, secure_coding_practices_followed = True,
     high_severity_vulnerabilities = 0, medium_severity_vulnerabilities = 1,
     low_severity_vulnerabilities = 2\<rparr>"

definition performance_passing :: PerformanceValidation where
  "performance_passing = \<lparr>perf_status = QG_PASSED, benchmark_executed = False,
     execution_time_seconds = None, memory_usage_mb = None,
     performance_requirements_met = True\<rparr>"

definition code_quality_passing :: CodeQualityValidation where
  "code_quality_passing = \<lparr>cq_status = QG_PASSED, static_analysis_passed = True,
     type_checking_passed = True, linting_passed = True, complexity_score = Some 4.2,
     documentation_coverage_percentage = Some 88, code_style_violations = 0\<rparr>"

definition run_low_coverage :: task_run where
  "run_low_coverage = \<lparr>acquired = Inr ''dev_agent_0'', reply = WorkerReturned reply_ok,
     validators = Inr (tdd_low_coverage, security_passing, performance_passing,
                       code_quality_passing)\<rparr>"


definition untimed :: "string \<Rightarrow> CompleteTask" where
  "untimed tid = \<lparr>task_id = tid, title = ''Implement the module'', file_locations = [],
                  estimated_duration_minutes = None\<rparr>"

definition timed :: "string \<Rightarrow> int \<Rightarrow> CompleteTask" where
  "timed tid minutes = \<lparr>task_id = tid, title = ''Implement the module'', file_locations = [],
                  estimated_duration_minutes = Some minutes\<rparr>"

text \<open>
  The dependency graph over a list of tasks that do not depend on each other; four tasks
  with the blocking edges of a diamond (B needs A, D needs B and C); two tasks of which
  each creates the file the other uses.
\<close>

definition graph_over :: "CompleteTask list \<Rightarrow> DependencyGraph" where
  "graph_over ts = \<lparr>tasks = map task_id ts, dependencies = []\<rparr>"

definition two_untimed :: "CompleteTask list" where
  "two_untimed = [untimed ''X'', untimed ''Y'']"

definition needs :: "string \<Rightarrow> string \<Rightarrow> TaskDependency" where
  "needs consumer_id creator_id =
     \<lparr>from_task_id = consumer_id, to_task_id = creator_id, dependency_type = FILE,
      is_blocking = True\<rparr>"

definition diamond :: "CompleteTask list" where
  "diamond = [timed ''A'' 30, timed ''B'' 20, timed ''C'' 10, timed ''D'' 5]"

definition diamond_graph :: DependencyGraph where
  "diamond_graph =
     \<lparr>tasks = map task_id diamond,
      dependencies = [needs ''B'' ''A'', needs ''D'' ''B'', needs ''D'' ''C'']\<rparr>"

definition file_cycle :: "CompleteTask list" where
  "file_cycle =
     [\<lparr>task_id = ''A'', title = ''Write module A'',
       file_locations = [(''a.py'', ''Create module A''), (''b.py'', ''Uses module B'')],
       estimated_duration_minutes = Some 30\<rparr>,
      \<lparr>task_id = ''B'', title = ''Write module B'',
       file_locations = [(''b.py'', ''Create module B''), (''a.py'', ''Uses module A'')],
       estimated_duration_minutes = Some 20\<rparr>]"

text \<open>
  A pool of three agents of capacity 4 with two, one and no current task, the last one
  paused; and the pool of two development agents after none, one and two tasks were
  started.
\<close>

definition mixed_pool :: AgentCoordinator where
  "mixed_pool =
     \<lparr>agents =
        [(''worker_a'', \<lparr>agent_id = ''worker_a'', agent_state = AS_IDLE,
                          current_tasks = [''t1'', ''t2''], max_concurrent_tasks = 4\<rparr>),
         (''worker_b'', \<lparr>agent_id = ''worker_b'', agent_state = AS_IDLE,
                          current_tasks = [''t3''], max_concurrent_tasks = 4\<rparr>),
         (''worker_c'', \<lparr>agent_id = ''worker_c'', agent_state = AS_PAUSED,
                          current_tasks = [], max_concurrent_tasks = 4\<rparr>)],
      agent_assignment = [],
      agent_sessions = [(''worker_a'', []), (''worker_b'', []), (''worker_c'', [])]\<rparr>"

definition pool_of_two :: AgentCoordinator where
  "pool_of_two = initialize_agent_pool 2 new_AgentCoordinator"

definition pool_one_busy :: AgentCoordinator where
  "pool_one_busy =
     with_agent ''dev_agent_0'' (execute_task_begin ''A'')
       (snd (projr (acquire_agent pool_of_two ''s1'')))"

definition pool_all_busy :: AgentCoordinator where
  "pool_all_busy =
     with_agent ''dev_agent_1'' (execute_task_begin ''B'')
       (snd (projr (acquire_agent pool_one_busy ''s1'')))"

section \<open>Properties of the quality aggregation\<close>

lemma tdd_score_range: "0 \<le> tdd_score t \<and> tdd_score t \<le> 1"
  by (simp add: tdd_score_def)

lemma security_score_range: "0 \<le> security_score s \<and> security_score s \<le> 1"
  by (simp add: security_score_def)

lemma performance_score_range:
  "0 \<le> calculate_performance_score p \<and> calculate_performance_score p \<le> 1"
  by (cases "execution_time_seconds p"; cases "memory_usage_mb p")
     (simp_all add: calculate_performance_score_def score_factors_def time_factor_def
        memory_factor_def)

lemma complexity_points_range: "0 \<le> complexity_points x \<and> complexity_points x \<le> 1"
  by (cases x) (simp_all add: complexity_points_def)

lemma documentation_points_range: "0 \<le> documentation_points x \<and> documentation_points x \<le> 1"
  by (cases x) (simp_all add: documentation_points_def)

lemma quality_score_range:
  "0 \<le> calculate_quality_score c \<and> calculate_quality_score c \<le> 1"
proof -
  let ?a = "complexity_points (complexity_score c)"
  let ?b = "documentation_points (documentation_coverage_percentage c)"
  have "0 \<le> ?a" "?a \<le> 1" "0 \<le> ?b" "?b \<le> 1"
    using complexity_points_range documentation_points_range by blast+
  then show ?thesis
    by (simp add: calculate_quality_score_def)
qed

text \<open>
  C6. For every result of \<^verbatim>\<open>validate_task_quality\<close>: the overall status is failed
  exactly when at least one of the four sub-validations has status failed; the quality
  score is the arithmetic mean of the four component scores; each component score lies
  between 0 and 1.
\<close>

theorem quality_aggregate_status_and_score:
  "((overall_status (validate_task_quality tid t s p cq) = QG_FAILED) =
      (tdd_status t = QG_FAILED \<or> sec_status s = QG_FAILED \<or>
       perf_status p = QG_FAILED \<or> cq_status cq = QG_FAILED)) \<and>
   quality_score (validate_task_quality tid t s p cq) =
     Some ((tdd_score t + security_score s + calculate_performance_score p +
            calculate_quality_score cq) / 4) \<and>
   0 \<le> tdd_score t \<and> tdd_score t \<le> 1 \<and>
   0 \<le> security_score s \<and> security_score s \<le> 1 \<and>
   0 \<le> calculate_performance_score p \<and> calculate_performance_score p \<le> 1 \<and>
   0 \<le> calculate_quality_score cq \<and> calculate_quality_score cq \<le> 1"
proof -
  have st: "(overall_status (validate_task_quality tid t s p cq) = QG_FAILED) =
            (tdd_status t = QG_FAILED \<or> sec_status s = QG_FAILED \<or>
             perf_status p = QG_FAILED \<or> cq_status cq = QG_FAILED)"
    by (simp add: validate_task_quality_def calculate_overall_quality_score_def
          fail_if_failed_def Let_def)
  have sc: "quality_score (validate_task_quality tid t s p cq) =
     Some ((tdd_score t + security_score s + calculate_performance_score p +
            calculate_quality_score cq) / 4)"
    by (simp add: validate_task_quality_def calculate_overall_quality_score_def
          scores_def Let_def)
  show ?thesis
    using st sc tdd_score_range [of t] security_score_range [of s]
      performance_score_range [of p] quality_score_range [of cq]
    by blast
qed


section \<open>Properties of the orchestrator\<close>

lemma map_of_dict_set: "map_of (dict_set k v d) = (map_of d)(k \<mapsto> v)"
  by (induction d) (auto simp: fun_eq_iff)

lemma failed_gates_set:
  "set (failed_gates q) =
     (if meets_requirements (tdd_validation q) then {} else {''tdd''}) \<union>
     (if meets_security_requirements (security_validation q) then {} else {''security''}) \<union>
     (if performance_requirements_met (performance_validation q) then {} else {''performance''}) \<union>
     (if meets_quality_standards (code_quality_validation q) then {} else {''code_quality''})"
  by (auto simp add: failed_gates_def)

lemma validate_task_quality_parts:
  "tdd_validation (validate_task_quality tid t s p c) = t"
  "security_validation (validate_task_quality tid t s p c) = s"
  "performance_validation (validate_task_quality tid t s p c) = p"
  "code_quality_validation (validate_task_quality tid t s p c) = c"
  by (simp_all add: validate_task_quality_def calculate_overall_quality_score_def Let_def)


text \<open>
  C5. With quality enforcement on, a task whose worker reports success and whose quality
  result does not pass all four gates gets a task result with status failed and the
  error detail "quality_gate_failure" whose list holds exactly the gates, among tdd,
  security, performance and code_quality, that did not pass; the result is recorded in
  the session under the task's identifier. A coverage below the required minimum puts
  tdd in the list.
\<close>

theorem quality_gate_failure_downgrades:
  assumes "acquired run = Inr agent"
    and "reply run = WorkerReturned er"
    and "success er"
    and "validators run = Inr (t, sv, p, c)"
    and "\<not> all_quality_gates_passed (validate_task_quality (task_id task) t sv p c)"
  shows "tr_status (snd (execute_single_task True run s task)) = TS_FAILED \<and>
         (\<exists>gates. tr_error_details (snd (execute_single_task True run s task)) =
                     Some (QualityGateFailure gates) \<and>
                   distinct gates \<and>
                   (\<forall>g. g \<in> set gates \<longleftrightarrow>
                      (g = ''tdd'' \<and> \<not> meets_requirements t) \<or>
                      (g = ''security'' \<and> \<not> meets_security_requirements sv) \<or>
                      (g = ''performance'' \<and> \<not> performance_requirements_met p) \<or>
                      (g = ''code_quality'' \<and> \<not> meets_quality_standards c)) \<and>
                   (test_coverage_percentage t < minimum_coverage_required t \<longrightarrow> ''tdd'' \<in> set gates)) \<and>
         map_of (task_results (fst (execute_single_task True run s task))) (task_id task) =
           Some (snd (execute_single_task True run s task)) \<and>
         task_id task \<in> set (failed_tasks_set (fst (execute_single_task True run s task))) \<and>
         \<not> TaskResult_is_successful (snd (execute_single_task True run s task))"
proof -
  let ?q = "validate_task_quality (task_id task) t sv p c"
  let ?r0 = "\<lparr>tr_task_id = task_id task, tr_status = TS_COMPLETED,
                           tr_agent_id = Some agent,
                           implementation_artifacts = artifacts_implementation er,
                           test_artifacts = artifacts_tests er,
                           documentation_artifacts = artifacts_documentation er,
                           implementation_summary = Some (summary er),
                           quality_validation = None, tr_error_details = None\<rparr>"
  let ?r = "apply_quality_gates ?q ?r0"
  have ex: "execute_single_task True run s task = (record_task_result s task ?r, ?r)"
    using assms(1-4) by (simp add: execute_single_task_def single_task_body_def Let_def)
  have st: "tr_status ?r = TS_FAILED"
    and det: "tr_error_details ?r = Some (QualityGateFailure (failed_gates ?q))"
    using assms(5) by (simp_all add: apply_quality_gates_def Let_def)
  have dist: "distinct (failed_gates ?q)"
    by (simp add: failed_gates_def)
  have mem: "\<forall>g. g \<in> set (failed_gates ?q) \<longleftrightarrow>
                      (g = ''tdd'' \<and> \<not> meets_requirements t) \<or>
                      (g = ''security'' \<and> \<not> meets_security_requirements sv) \<or>
                      (g = ''performance'' \<and> \<not> performance_requirements_met p) \<or>
                      (g = ''code_quality'' \<and> \<not> meets_quality_standards c)"
    by (auto simp add: failed_gates_set validate_task_quality_parts split: if_splits)
  have cov: "test_coverage_percentage t < minimum_coverage_required t \<longrightarrow> ''tdd'' \<in> set (failed_gates ?q)"
    using mem by (auto simp: meets_requirements_def)
  have unsucc: "\<not> TaskResult_is_successful ?r"
    using st by (simp add: TaskResult_is_successful_def)
  have rec: "map_of (task_results (record_task_result s task ?r)) (task_id task) = Some ?r"
    by (simp add: record_task_result_def Let_def map_of_dict_set)
  have fl: "task_id task \<in> set (failed_tasks_set (record_task_result s task ?r))"
    using unsucc by (simp add: record_task_result_def Let_def)
  show ?thesis
    unfolding ex fst_conv snd_conv
    using st det dist mem cov unsucc rec fl by blast
qed

text \<open>
  The scenario of the claim: coverage 80 against a required 95, the other gates passing.
\<close>

theorem quality_gate_failure_downgrades_witness:
  "acquired run_low_coverage = Inr ''dev_agent_0'' \<and>
   reply run_low_coverage = WorkerReturned reply_ok \<and> success reply_ok \<and>
   \<not> all_quality_gates_passed
       (validate_task_quality (task_id task_A) tdd_low_coverage security_passing
          performance_passing code_quality_passing) \<and>
   tr_status (snd (execute_single_task True run_low_coverage
                     (new_ExecutionSession ''s0'' (graph_of [layer_of 0 [task_A]] 1))
                     task_A)) = TS_FAILED \<and>
   tr_error_details (snd (execute_single_task True run_low_coverage
                     (new_ExecutionSession ''s0'' (graph_of [layer_of 0 [task_A]] 1))
                     task_A)) = Some (QualityGateFailure [''tdd''])"
proof -
  have h1: "acquired run_low_coverage = Inr ''dev_agent_0''"
    and h2: "reply run_low_coverage = WorkerReturned reply_ok"
    and h3: "success reply_ok"
    and h4: "validators run_low_coverage =
               Inr (tdd_low_coverage, security_passing, performance_passing, code_quality_passing)"
    by (simp_all add: run_low_coverage_def reply_ok_def)
  have h5: "\<not> all_quality_gates_passed
       (validate_task_quality (task_id task_A) tdd_low_coverage security_passing
          performance_passing code_quality_passing)"
    by (simp add: all_quality_gates_passed_def validate_task_quality_parts
        meets_requirements_def tdd_low_coverage_def)
  have g: "failed_gates (validate_task_quality (task_id task_A) tdd_low_coverage security_passing
          performance_passing code_quality_passing) = [''tdd'']"
    by (simp add: failed_gates_def validate_task_quality_parts meets_requirements_def
        meets_security_requirements_def meets_quality_standards_def tdd_low_coverage_def
        security_passing_def performance_passing_def code_quality_passing_def)
  have d: "tr_error_details (snd (execute_single_task True run_low_coverage
                     (new_ExecutionSession ''s0'' (graph_of [layer_of 0 [task_A]] 1))
                     task_A)) = Some (QualityGateFailure [''tdd''])"
    using h1 h2 h3 h4 h5 g
    by (simp add: execute_single_task_def single_task_body_def apply_quality_gates_def Let_def)
  from quality_gate_failure_downgrades [OF h1 h2 h3 h4 h5]
  show ?thesis using h1 h2 h3 h5 d by simp
qed





















text \<open>
  C10. For a graph without execution layers, \<^verbatim>\<open>execute_implementation_plan\<close> raises
  \<^verbatim>\<open>ParallelExecutionError\<close> and returns no result; the exception it wraps is the
  \<^verbatim>\<open>AttributeError\<close> of \<^verbatim>\<open>_create_execution_session\<close>. For a session over such a
  graph, \<^verbatim>\<open>_create_execution_result\<close> divides the total task count by the number of
  layers, which is zero, so it raises and \<^verbatim>\<open>_execute_session\<close> with it. The
  constructor of \<^verbatim>\<open>ExecutionResult\<close> rejects a total that is not positive.
\<close>

theorem empty_layers_raise:
  assumes "execution_layers g = []"
  shows "execute_implementation_plan qe env sid started g =
           Inl (ParallelExecutionError
                  (''Failed to execute implementation plan: '' @
                   repr_string ''ExecutionGraph'' @ '' object has no attribute '' @
                   repr_string ''total_estimated_duration_minutes'')) \<and>
         (\<forall>s errs. execution_graph s = g \<longrightarrow>
            create_execution_result s errs = Inl (ZeroDivisionError ''division by zero'') \<and>
            execute_session qe env s = Inl (ZeroDivisionError ''division by zero'')) \<and>
         (\<forall>eid n a b c rs avg errs. \<not> n > 0 \<longrightarrow>
            new_ExecutionResult eid n a b c rs avg errs = Inl (ValidationError ''total_tasks''))"
proof -
  have z: "create_execution_result s errs = Inl (ZeroDivisionError ''division by zero'') \<and>
           execute_session qe env s = Inl (ZeroDivisionError ''division by zero'')"
    if "execution_graph s = g" for s errs
    using assms that
    by (simp add: execute_session_def create_execution_result_def Let_def)
  have p: "execute_implementation_plan qe env sid started g =
           Inl (ParallelExecutionError
                  (''Failed to execute implementation plan: '' @
                   repr_string ''ExecutionGraph'' @ '' object has no attribute '' @
                   repr_string ''total_estimated_duration_minutes''))"
    by (simp add: execute_implementation_plan_def create_execution_session_def
        total_estimated_duration_minutes_def no_attribute_def)
  show ?thesis
    using z p by (simp add: new_ExecutionResult_def)
qed

theorem empty_layers_raise_witness:
  "execution_layers (graph_of [] 0) = [] \<and>
   execution_graph (new_ExecutionSession ''s4'' (graph_of [] 0)) = graph_of [] 0 \<and>
   execute_implementation_plan True (\<lambda>tid. run_ok) ''s4'' None (graph_of [] 0) =
     Inl (ParallelExecutionError
            (''Failed to execute implementation plan: '' @
             repr_string ''ExecutionGraph'' @ '' object has no attribute '' @
             repr_string ''total_estimated_duration_minutes'')) \<and>
   execute_session True (\<lambda>tid. run_ok) (new_ExecutionSession ''s4'' (graph_of [] 0)) =
     Inl (ZeroDivisionError ''division by zero'') \<and>
   new_ExecutionResult ''s4'' 0 0 0 0 [] 0 [] = Inl (ValidationError ''total_tasks'')"
proof -
  have h: "execution_layers (graph_of [] 0) = []"
    by (simp add: graph_of_def)
  have g: "execution_graph (new_ExecutionSession ''s4'' (graph_of [] 0)) = graph_of [] 0"
    by (simp add: new_ExecutionSession_def)
  from empty_layers_raise [OF h, of True "\<lambda>tid. run_ok" "''s4''" None]
  show ?thesis
    using h g by simp
qed

section \<open>Properties of the agent coordinator\<close>

lemma min_by_mem: "min_by f x xs \<in> set (x # xs)"
  by (induction xs arbitrary: x) auto

lemma min_by_le: "\<forall>y \<in> set (x # xs). f (min_by f x xs) \<le> f y"
proof (induction xs arbitrary: x)
  case Nil
  show ?case by simp
next
  case (Cons z zs)
  show ?case
  proof (cases "f z < f x")
    case True
    have "\<forall>y \<in> set (z # zs). f (min_by f z zs) \<le> f y" by (rule Cons.IH)
    moreover from this have "f (min_by f z zs) \<le> f z" by simp
    ultimately show ?thesis using True by auto
  next
    case False
    have "\<forall>y \<in> set (x # zs). f (min_by f x zs) \<le> f y" by (rule Cons.IH)
    moreover from this have "f (min_by f x zs) \<le> f x" by simp
    ultimately show ?thesis using False by auto
  qed
qed

lemma find_best_agent_None:
  "(find_best_agent c = None) = (\<forall>(k, a) \<in> set (agents c). \<not> is_available a)"
proof (cases "filter (\<lambda>(k, a). is_available a) (agents c)")
  case Nil
  then have "\<forall>(k, a) \<in> set (agents c). \<not> is_available a"
    by (auto simp: filter_empty_conv)
  then show ?thesis using Nil by (simp add: find_best_agent_def)
next
  case (Cons x xs)
  then have "x \<in> set (filter (\<lambda>(k, a). is_available a) (agents c))" by simp
  then have "\<not> (\<forall>(k, a) \<in> set (agents c). \<not> is_available a)" by auto
  then show ?thesis using Cons by (simp add: find_best_agent_def)
qed

lemma find_best_agent_Some:
  assumes "find_best_agent c = Some (k, a)"
  shows "(k, a) \<in> set (agents c) \<and> is_available a \<and>
         (\<forall>(k', b) \<in> set (agents c). is_available b \<longrightarrow> get_load_factor a \<le> get_load_factor b)"
proof -
  let ?av = "filter (\<lambda>(k, a). is_available a) (agents c)"
  let ?f = "\<lambda>(k, a). get_load_factor a"
  from assms obtain x xs where av: "?av = x # xs"
    and m: "min_by ?f x xs = (k, a)"
    by (auto simp: find_best_agent_def split: list.splits)
  have "(k, a) \<in> set ?av" using min_by_mem [of ?f x xs] av m by simp
  then have 1: "(k, a) \<in> set (agents c)" "is_available a" by auto
  have 2: "get_load_factor a \<le> get_load_factor b"
    if "(k', b) \<in> set (agents c)" "is_available b" for k' b
  proof -
    have "(k', b) \<in> set ?av" using that by simp
    then have "(k', b) \<in> set (x # xs)" using av by simp
    with min_by_le [of x xs ?f] have "?f (min_by ?f x xs) \<le> ?f (k', b)" by blast
    then show ?thesis using m by simp
  qed
  show ?thesis using 1 2 by blast
qed

lemma dict_set_subset: "set (dict_set k v d) \<subseteq> insert (k, v) (set d)"
proof (induction d)
  case Nil
  show ?case by simp
next
  case (Cons x d)
  obtain k' v' where x: "x = (k', v')" by (cases x)
  show ?case using Cons.IH by (cases "k' = k") (auto simp: x)
qed

lemma acquire_agent_Inr:
  assumes "acquire_agent c sid = Inr ((k, a), c')"
  shows "find_best_agent c = Some (k, a) \<and> agents c' = agents c \<and>
         (\<forall>x. map_of (agent_sessions c) x \<noteq> None \<longrightarrow> map_of (agent_sessions c') x \<noteq> None)"
proof -
  from assms obtain k0 a0 where fb: "find_best_agent c = Some (k0, a0)"
    by (auto simp: acquire_agent_def split: option.splits)
  from assms fb obtain ss where ss: "map_of (agent_sessions c) (agent_id a0) = Some ss"
    by (auto simp: acquire_agent_def Let_def split: option.splits)
  from assms fb ss have e: "k0 = k" "a0 = a"
    and c': "c' = c\<lparr>agent_assignment := dict_set sid (agent_id a0) (agent_assignment c),
                    agent_sessions := dict_set (agent_id a0) (List.insert sid ss) (agent_sessions c)\<rparr>"
    by (auto simp: acquire_agent_def Let_def)
  show ?thesis using fb e by (simp add: c' map_of_dict_set)
qed

lemma pool_okD:
  "pool_ok c \<Longrightarrow> (k, a) \<in> set (agents c) \<Longrightarrow>
     int (length (current_tasks a)) \<le> max_concurrent_tasks a \<and>
     0 < max_concurrent_tasks a \<and> map_of (agent_sessions c) (agent_id a) \<noteq> None"
  unfolding pool_ok_def by blast

lemma pool_okI:
  "(\<And>k a. (k, a) \<in> set (agents c) \<Longrightarrow>
     int (length (current_tasks a)) \<le> max_concurrent_tasks a \<and>
     0 < max_concurrent_tasks a \<and> map_of (agent_sessions c) (agent_id a) \<noteq> None) \<Longrightarrow>
   pool_ok c"
  unfolding pool_ok_def by blast

lemma with_agent_mem:
  "(k', b) \<in> set (agents (with_agent k f c)) \<Longrightarrow>
     (k', b) \<in> set (agents c) \<and> k' \<noteq> k \<or> (\<exists>a. (k, a) \<in> set (agents c) \<and> k' = k \<and> b = f a)"
  unfolding with_agent_def by (auto split: if_splits)

lemma with_agent_sessions: "agent_sessions (with_agent k f c) = agent_sessions c"
  by (simp add: with_agent_def)

lemma pool_ok_with_agent:
  assumes ok: "pool_ok c"
    and len: "\<And>a. (k, a) \<in> set (agents c) \<Longrightarrow>
           int (length (current_tasks (f a))) \<le> max_concurrent_tasks a"
    and cap: "\<And>a. max_concurrent_tasks (f a) = max_concurrent_tasks a"
    and ident: "\<And>a. agent_id (f a) = agent_id a"
  shows "pool_ok (with_agent k f c)"
proof (rule pool_okI)
  fix k' b assume "(k', b) \<in> set (agents (with_agent k f c))"
  from with_agent_mem [OF this] show
    "int (length (current_tasks b)) \<le> max_concurrent_tasks b \<and>
     0 < max_concurrent_tasks b \<and>
     map_of (agent_sessions (with_agent k f c)) (agent_id b) \<noteq> None"
  proof
    assume "(k', b) \<in> set (agents c) \<and> k' \<noteq> k"
    then show ?thesis using pool_okD [OF ok, of k' b] by (simp add: with_agent_sessions)
  next
    assume "\<exists>a. (k, a) \<in> set (agents c) \<and> k' = k \<and> b = f a"
    then obtain a where a: "(k, a) \<in> set (agents c)" "b = f a" by blast
    show ?thesis
      using pool_okD [OF ok a(1)] len [OF a(1)] by (simp add: a(2) cap ident with_agent_sessions)
  qed
qed

lemma pool_ok_sessions:
  assumes "pool_ok c" "agents c' = agents c"
    "\<forall>x. map_of (agent_sessions c) x \<noteq> None \<longrightarrow> map_of (agent_sessions c') x \<noteq> None"
  shows "pool_ok c'"
proof (rule pool_okI)
  fix k a assume "(k, a) \<in> set (agents c')"
  then have "(k, a) \<in> set (agents c)" using assms(2) by simp
  from pool_okD [OF assms(1) this] show
    "int (length (current_tasks a)) \<le> max_concurrent_tasks a \<and>
     0 < max_concurrent_tasks a \<and> map_of (agent_sessions c') (agent_id a) \<noteq> None"
    using assms(3) by blast
qed

lemma pool_ok_add_agent:
  assumes ok: "pool_ok c"
  shows "pool_ok (add_agent i c)"
proof (rule pool_okI)
  let ?aid = "''dev_agent_'' @ string_of_nat i"
  let ?ag = "initialize (DevelopmentAgent ?aid)"
  have ag: "agents (add_agent i c) = dict_set ?aid ?ag (agents c)"
    and se: "agent_sessions (add_agent i c) = dict_set ?aid [] (agent_sessions c)"
    by (simp_all add: add_agent_def Let_def)
  fix k a assume "(k, a) \<in> set (agents (add_agent i c))"
  then have "(k, a) = (?aid, ?ag) \<or> (k, a) \<in> set (agents c)"
    using dict_set_subset [of ?aid ?ag "agents c"] ag by auto
  then show "int (length (current_tasks a)) \<le> max_concurrent_tasks a \<and>
        0 < max_concurrent_tasks a \<and>
        map_of (agent_sessions (add_agent i c)) (agent_id a) \<noteq> None"
  proof
    assume "(k, a) = (?aid, ?ag)"
    then have "a = ?ag" by simp
    then show ?thesis
      by (simp add: se map_of_dict_set initialize_def DevelopmentAgent_def)
  next
    assume "(k, a) \<in> set (agents c)"
    from pool_okD [OF ok this] show ?thesis
      by (simp add: se map_of_dict_set)
  qed
qed

lemma pool_ok_fold_add_agent: "pool_ok c \<Longrightarrow> pool_ok (fold add_agent xs c)"
  by (induction xs arbitrary: c) (simp_all add: pool_ok_add_agent)

lemma pool_ok_release: "pool_ok c \<Longrightarrow> pool_ok (release_agent c aid sid)"
  by (rule pool_ok_sessions [of c])
     (simp_all add: release_agent_def Let_def map_of_dict_set split: option.splits)

lemma pool_ok_cleanup: "pool_ok c \<Longrightarrow> pool_ok (cleanup_session c sid)"
  by (rule pool_ok_sessions [of c])
     (simp_all add: cleanup_session_def Let_def map_of_dict_set split: option.splits)

lemma length_insert_le: "length (List.insert x xs) \<le> Suc (length xs)"
  by (simp add: List.insert_def)

lemma dict_set_fst: "fst ` set (dict_set k v d) = insert k (fst ` set d)"
proof (induction d)
  case Nil
  show ?case by simp
next
  case (Cons x d)
  obtain k' v' where x: "x = (k', v')" by (cases x)
  show ?case using Cons.IH by (cases "k' = k") (auto simp: x)
qed

lemma dict_set_distinct: "distinct (map fst d) \<Longrightarrow> distinct (map fst (dict_set k v d))"
proof (induction d)
  case Nil
  show ?case by simp
next
  case (Cons x d)
  obtain k' v' where x: "x = (k', v')" by (cases x)
  show ?case
  proof (cases "k' = k")
    case True
    then show ?thesis using Cons.prems by (simp add: x)
  next
    case False
    have "k' \<notin> set (map fst (dict_set k v d))"
      using Cons.prems False by (simp add: dict_set_fst x)
    then show ?thesis using Cons False by (simp add: x)
  qed
qed

lemma with_agent_fst: "map fst (agents (with_agent k f c)) = map fst (agents c)"
  by (simp add: with_agent_def) (induction "agents c", auto)

lemma fold_add_agent_distinct:
  "distinct (map fst (agents c)) \<Longrightarrow> distinct (map fst (agents (fold add_agent xs c)))"
proof (induction xs arbitrary: c)
  case Nil
  then show ?case by simp
next
  case (Cons i xs)
  have "distinct (map fst (agents (add_agent i c)))"
    using Cons.prems by (simp add: add_agent_def Let_def dict_set_distinct)
  from Cons.IH [OF this] show ?case by simp
qed

lemma reachable_distinct: "reachable c \<Longrightarrow> distinct (map fst (agents c))"
proof (induction rule: reachable.induct)
  case created
  show ?case by (simp add: new_AgentCoordinator_def)
next
  case (initialized c max_agents)
  then show ?case by (simp add: initialize_agent_pool_def fold_add_agent_distinct)
next
  case (acquired c sid k a c')
  then show ?case using acquire_agent_Inr [OF acquired.hyps(2)] by simp
next
  case (started c sid k a c' tid)
  then show ?case using acquire_agent_Inr [OF started.hyps(2)] by (simp add: with_agent_fst)
next
  case (finished c k tid)
  then show ?case by (simp add: with_agent_fst)
next
  case (released c aid sid)
  then show ?case by (simp add: release_agent_def Let_def split: option.splits)
next
  case (paused c sid)
  then show ?case by (simp add: pause_all_tasks_def with_agent_fst split: option.splits)
next
  case (cancelled c sid)
  then show ?case by (simp add: cancel_all_tasks_def with_agent_fst split: option.splits)
next
  case (cleaned c sid)
  then show ?case by (simp add: cleanup_session_def Let_def split: option.splits)
next
  case (shut_down c)
  show ?case by (simp add: shutdown_all_agents_def)
qed

lemma reachable_pool_ok: "reachable c \<Longrightarrow> pool_ok c"
proof (induction rule: reachable.induct)
  case created
  show ?case by (simp add: pool_ok_def new_AgentCoordinator_def)
next
  case (initialized c max_agents)
  then show ?case by (simp add: initialize_agent_pool_def pool_ok_fold_add_agent)
next
  case (acquired c sid k a c')
  from acquire_agent_Inr [OF acquired.hyps(2)] show ?case
    using acquired.IH pool_ok_sessions by blast
next
  case (started c sid k a c' tid)
  from acquire_agent_Inr [OF started.hyps(2)]
  have fb: "find_best_agent c = Some (k, a)" and ag: "agents c' = agents c"
    and ks: "\<forall>x. map_of (agent_sessions c) x \<noteq> None \<longrightarrow> map_of (agent_sessions c') x \<noteq> None"
    by auto
  have ok': "pool_ok c'" using started.IH ag ks by (rule pool_ok_sessions)
  show ?case
  proof (rule pool_okI)
    fix k' b assume "(k', b) \<in> set (agents (with_agent k (execute_task_begin tid) c'))"
    from with_agent_mem [OF this] show
      "int (length (current_tasks b)) \<le> max_concurrent_tasks b \<and>
       0 < max_concurrent_tasks b \<and>
       map_of (agent_sessions (with_agent k (execute_task_begin tid) c')) (agent_id b) \<noteq> None"
    proof
      assume "(k', b) \<in> set (agents c') \<and> k' \<noteq> k"
      then show ?thesis using pool_okD [OF ok', of k' b] by (simp add: with_agent_sessions)
    next
      assume "\<exists>x. (k, x) \<in> set (agents c') \<and> k' = k \<and> b = execute_task_begin tid x"
      then obtain x where x: "(k, x) \<in> set (agents c')" "b = execute_task_begin tid x" by blast
      have okx: "int (length (current_tasks x)) \<le> max_concurrent_tasks x"
        "0 < max_concurrent_tasks x" "map_of (agent_sessions c') (agent_id x) \<noteq> None"
        using pool_okD [OF ok' x(1)] by simp_all
      have "int (length (current_tasks b)) \<le> max_concurrent_tasks x"
      proof (cases "x = a")
        case True
        have "is_available a" using find_best_agent_Some [OF fb] by simp
        then have "int (length (current_tasks a)) < max_concurrent_tasks a"
          by (simp add: is_available_def)
        moreover have "length (current_tasks b) \<le> Suc (length (current_tasks a))"
          using length_insert_le [of tid "current_tasks a"]
          by (simp add: x(2) True execute_task_begin_def)
        ultimately show ?thesis using True by simp
      next
        case False
        have "(k, a) \<in> set (agents c')" using find_best_agent_Some [OF fb] ag by simp
        moreover have "distinct (map fst (agents c'))"
          using reachable_distinct [OF started.hyps(1)] ag by simp
        ultimately have "x = a" using x(1) eq_key_imp_eq_value by metis
        then show ?thesis using False by simp
      qed
      then show ?thesis using okx
        by (simp add: x(2) execute_task_begin_def with_agent_sessions)
    qed
  qed
next
  case (finished c k tid)
  show ?case
  proof (rule pool_ok_with_agent [OF finished.IH])
    fix a assume "(k, a) \<in> set (agents c)"
    from pool_okD [OF finished.IH this]
    have "int (length (current_tasks a)) \<le> max_concurrent_tasks a" by simp
    moreover have "int (length (removeAll tid (current_tasks a))) \<le> int (length (current_tasks a))"
      by simp
    ultimately have "int (length (removeAll tid (current_tasks a))) \<le> max_concurrent_tasks a"
      by linarith
    then show "int (length (current_tasks (execute_task_end tid a))) \<le> max_concurrent_tasks a"
      by (simp add: execute_task_end_def)
  qed (simp_all add: execute_task_end_def)
next
  case (released c aid sid)
  then show ?case by (simp add: pool_ok_release)
next
  case (paused c sid)
  show ?case
  proof (cases "map_of (agent_assignment c) sid")
    case None
    then show ?thesis using paused.IH by (simp add: pause_all_tasks_def)
  next
    case (Some aid)
    have "pool_ok (with_agent aid (\<lambda>a. a\<lparr>agent_state := AS_PAUSED\<rparr>) c)"
    proof (rule pool_ok_with_agent [OF paused.IH])
      fix a assume "(aid, a) \<in> set (agents c)"
      from pool_okD [OF paused.IH this]
      show "int (length (current_tasks (a\<lparr>agent_state := AS_PAUSED\<rparr>))) \<le> max_concurrent_tasks a"
        by simp
    qed simp_all
    then show ?thesis using Some by (simp add: pause_all_tasks_def)
  qed
next
  case (cancelled c sid)
  show ?case
  proof (cases "map_of (agent_assignment c) sid")
    case None
    then show ?thesis using cancelled.IH by (simp add: cancel_all_tasks_def)
  next
    case (Some aid)
    have "pool_ok (with_agent aid (\<lambda>a. a\<lparr>current_tasks := [], agent_state := AS_IDLE\<rparr>) c)"
    proof (rule pool_ok_with_agent [OF cancelled.IH])
      fix a assume "(aid, a) \<in> set (agents c)"
      from pool_okD [OF cancelled.IH this]
      show "int (length (current_tasks (a\<lparr>current_tasks := [], agent_state := AS_IDLE\<rparr>)))
              \<le> max_concurrent_tasks a"
        by simp
    qed simp_all
    then show ?thesis using Some by (simp add: cancel_all_tasks_def)
  qed
next
  case (cleaned c sid)
  then show ?case by (simp add: pool_ok_cleanup)
next
  case (shut_down c)
  show ?case by (simp add: pool_ok_def shutdown_all_agents_def)
qed

lemma string_of_nat_digits: "string_of_nat 0 = ''0''" "string_of_nat (Suc 0) = ''1''"
  by (simp_all add: string_of_nat.simps)

lemma pool_of_two_eq:
  "pool_of_two =
     \<lparr>agents = [(''dev_agent_0'', \<lparr>agent_id = ''dev_agent_0'', agent_state = AS_IDLE,
                                   current_tasks = [], max_concurrent_tasks = 1\<rparr>),
                (''dev_agent_1'', \<lparr>agent_id = ''dev_agent_1'', agent_state = AS_IDLE,
                                   current_tasks = [], max_concurrent_tasks = 1\<rparr>)],
      agent_assignment = [],
      agent_sessions = [(''dev_agent_0'', []), (''dev_agent_1'', [])]\<rparr>"
  by (simp add: pool_of_two_def initialize_agent_pool_def new_AgentCoordinator_def
      add_agent_def initialize_def DevelopmentAgent_def string_of_nat_digits Let_def
      upt_rec [of 0] upt_rec [of 1] upt_rec [of "Suc 0"] numeral_2_eq_2)

lemma pool_of_two_reachable: "reachable pool_of_two"
  unfolding pool_of_two_def by (intro reachable.initialized reachable.created)

lemma acquire_pool_of_two:
  "acquire_agent pool_of_two ''s1'' =
     Inr ((''dev_agent_0'', \<lparr>agent_id = ''dev_agent_0'', agent_state = AS_IDLE,
                              current_tasks = [], max_concurrent_tasks = 1\<rparr>),
          pool_of_two\<lparr>agent_assignment := [(''s1'', ''dev_agent_0'')],
                      agent_sessions := [(''dev_agent_0'', [''s1'']), (''dev_agent_1'', [])]\<rparr>)"
  by (simp add: pool_of_two_eq acquire_agent_def find_best_agent_def is_available_def
      get_load_factor_def Let_def)

lemma pool_one_busy_reachable: "reachable pool_one_busy"
  unfolding pool_one_busy_def
  by (rule reachable.started [OF pool_of_two_reachable, of "''s1''" _ _ _ "''A''"])
     (simp add: acquire_pool_of_two)

lemma pool_one_busy_eq:
  "pool_one_busy =
     \<lparr>agents = [(''dev_agent_0'', \<lparr>agent_id = ''dev_agent_0'', agent_state = AS_BUSY,
                                   current_tasks = [''A''], max_concurrent_tasks = 1\<rparr>),
                (''dev_agent_1'', \<lparr>agent_id = ''dev_agent_1'', agent_state = AS_IDLE,
                                   current_tasks = [], max_concurrent_tasks = 1\<rparr>)],
      agent_assignment = [(''s1'', ''dev_agent_0'')],
      agent_sessions = [(''dev_agent_0'', [''s1'']), (''dev_agent_1'', [])]\<rparr>"
  unfolding pool_one_busy_def acquire_pool_of_two
  by (simp add: with_agent_def pool_of_two_eq execute_task_begin_def)

lemma acquire_pool_one_busy:
  "acquire_agent pool_one_busy ''s1'' =
     Inr ((''dev_agent_1'', \<lparr>agent_id = ''dev_agent_1'', agent_state = AS_IDLE,
                              current_tasks = [], max_concurrent_tasks = 1\<rparr>),
          pool_one_busy\<lparr>agent_assignment := [(''s1'', ''dev_agent_1'')],
                        agent_sessions := [(''dev_agent_0'', [''s1'']), (''dev_agent_1'', [''s1''])]\<rparr>)"
  by (simp add: pool_one_busy_eq acquire_agent_def find_best_agent_def is_available_def
      get_load_factor_def Let_def)

lemma pool_all_busy_reachable: "reachable pool_all_busy"
  unfolding pool_all_busy_def
  by (rule reachable.started [OF pool_one_busy_reachable, of "''s1''" _ _ _ "''B''"])
     (simp add: acquire_pool_one_busy)

lemma pool_all_busy_agents:
  "agents pool_all_busy =
     [(''dev_agent_0'', \<lparr>agent_id = ''dev_agent_0'', agent_state = AS_BUSY,
                          current_tasks = [''A''], max_concurrent_tasks = 1\<rparr>),
      (''dev_agent_1'', \<lparr>agent_id = ''dev_agent_1'', agent_state = AS_BUSY,
                          current_tasks = [''B''], max_concurrent_tasks = 1\<rparr>)]"
  unfolding pool_all_busy_def acquire_pool_one_busy
  by (simp add: with_agent_def pool_one_busy_eq execute_task_begin_def)

lemma pool_all_busy_sessions:
  "agent_sessions pool_all_busy = [(''dev_agent_0'', [''s1'']), (''dev_agent_1'', [''s1''])]"
  unfolding pool_all_busy_def acquire_pool_one_busy
  by (simp add: with_agent_def)

text \<open>
  C8. On a pool in which every agent has its entry in \<^verbatim>\<open>agent_sessions\<close> (both
  dictionaries are filled together by \<^verbatim>\<open>initialize_agent_pool\<close>),
  \<^verbatim>\<open>acquire_agent\<close> returns at once: when no agent is available it raises
  \<^verbatim>\<open>AgentCoordinationError\<close>; otherwise it returns an agent of the pool that is idle
  with fewer current tasks than its capacity and whose load factor, the number of its
  current tasks divided by its capacity, is the least among the available agents, and it
  records the agent for the session. The lock is not part of the model: the body has no
  suspension point and is one step.
\<close>

theorem acquire_agent_lowest_load:
  assumes "\<forall>(k, a) \<in> set (agents c). map_of (agent_sessions c) (agent_id a) \<noteq> None"
  shows "((\<forall>(k, a) \<in> set (agents c). \<not> is_available a) \<longrightarrow>
            acquire_agent c sid =
              Inl (AgentCoordinationError ''No agents available for task execution'')) \<and>
         ((\<exists>(k, a) \<in> set (agents c). is_available a) \<longrightarrow>
            (\<exists>k a c'. acquire_agent c sid = Inr ((k, a), c') \<and>
               (k, a) \<in> set (agents c) \<and>
               agent_state a = AS_IDLE \<and>
               int (length (current_tasks a)) < max_concurrent_tasks a \<and>
               (\<forall>(k', b) \<in> set (agents c).
                  is_available b \<longrightarrow> get_load_factor a \<le> get_load_factor b) \<and>
               (\<forall>(k', b) \<in> set (agents c).
                  is_available b \<longrightarrow>
                    real (length (current_tasks a)) / real_of_int (max_concurrent_tasks a) \<le>
                    real (length (current_tasks b)) / real_of_int (max_concurrent_tasks b)) \<and>
               agents c' = agents c \<and>
               map_of (agent_assignment c') sid = Some (agent_id a) \<and>
               (\<exists>sessions. map_of (agent_sessions c) (agent_id a) = Some sessions \<and>
                  map_of (agent_sessions c') (agent_id a) = Some (List.insert sid sessions))))"
proof (intro conjI impI)
  assume "\<forall>(k, a) \<in> set (agents c). \<not> is_available a"
  then have "find_best_agent c = None" by (simp add: find_best_agent_None)
  then show "acquire_agent c sid =
               Inl (AgentCoordinationError ''No agents available for task execution'')"
    by (simp add: acquire_agent_def)
next
  assume "\<exists>(k, a) \<in> set (agents c). is_available a"
  then have "find_best_agent c \<noteq> None" by (auto simp: find_best_agent_None)
  then obtain k a where fb: "find_best_agent c = Some (k, a)" by auto
  note best = find_best_agent_Some [OF fb]
  from assms best obtain ss where ss: "map_of (agent_sessions c) (agent_id a) = Some ss" by auto
  let ?c' = "c\<lparr>agent_assignment := dict_set sid (agent_id a) (agent_assignment c),
                agent_sessions := dict_set (agent_id a) (List.insert sid ss) (agent_sessions c)\<rparr>"
  have acq: "acquire_agent c sid = Inr ((k, a), ?c')"
    using fb ss by (simp add: acquire_agent_def Let_def)
  have ag: "agents ?c' = agents c" by simp
  have av: "agent_state a = AS_IDLE" "int (length (current_tasks a)) < max_concurrent_tasks a"
    using best by (simp_all add: is_available_def)
  have ratio: "get_load_factor b =
                 real (length (current_tasks b)) / real_of_int (max_concurrent_tasks b)"
    if "is_available b" for b
    using that by (auto simp: is_available_def get_load_factor_def)
  have least: "\<forall>(k', b) \<in> set (agents c).
                  is_available b \<longrightarrow>
                    real (length (current_tasks a)) / real_of_int (max_concurrent_tasks a) \<le>
                    real (length (current_tasks b)) / real_of_int (max_concurrent_tasks b)"
  proof (clarify)
    fix k' b assume m: "(k', b) \<in> set (agents c)" and b: "is_available b"
    from best m b have "get_load_factor a \<le> get_load_factor b" by blast
    then show "real (length (current_tasks a)) / real_of_int (max_concurrent_tasks a) \<le>
               real (length (current_tasks b)) / real_of_int (max_concurrent_tasks b)"
      using ratio [OF b] ratio [of a] best by simp
  qed
  have asg: "map_of (agent_assignment ?c') sid = Some (agent_id a)"
    by (simp add: map_of_dict_set)
  have ses: "\<exists>sessions. map_of (agent_sessions c) (agent_id a) = Some sessions \<and>
                  map_of (agent_sessions ?c') (agent_id a) = Some (List.insert sid sessions)"
    using ss by (simp add: map_of_dict_set)
  show "\<exists>k a c'. acquire_agent c sid = Inr ((k, a), c') \<and>
               (k, a) \<in> set (agents c) \<and>
               agent_state a = AS_IDLE \<and>
               int (length (current_tasks a)) < max_concurrent_tasks a \<and>
               (\<forall>(k', b) \<in> set (agents c).
                  is_available b \<longrightarrow> get_load_factor a \<le> get_load_factor b) \<and>
               (\<forall>(k', b) \<in> set (agents c).
                  is_available b \<longrightarrow>
                    real (length (current_tasks a)) / real_of_int (max_concurrent_tasks a) \<le>
                    real (length (current_tasks b)) / real_of_int (max_concurrent_tasks b)) \<and>
               agents c' = agents c \<and>
               map_of (agent_assignment c') sid = Some (agent_id a) \<and>
               (\<exists>sessions. map_of (agent_sessions c) (agent_id a) = Some sessions \<and>
                  map_of (agent_sessions c') (agent_id a) = Some (List.insert sid sessions))"
    using acq ag av best least asg ses by blast
qed

text \<open>
  A pool of three agents of capacity 4: the first is idle with two tasks, the second is
  idle with one task, the third is paused without a task. The second is acquired: the
  third has the least load but is not idle, and the first is available with a higher
  load. On the pool of two agents that are both busy, the acquisition raises.
\<close>

theorem acquire_agent_lowest_load_witness:
  "map (\<lambda>(k, a). map_of (agent_sessions mixed_pool) (agent_id a) \<noteq> None) (agents mixed_pool) =
     [True, True, True] \<and>
   map (\<lambda>(k, a). is_available a) (agents mixed_pool) = [True, True, False] \<and>
   map (\<lambda>(k, a). get_load_factor a) (agents mixed_pool) = [1 / 2, 1 / 4, 0] \<and>
   fst (projr (acquire_agent mixed_pool ''s1'')) = agents mixed_pool ! 1 \<and>
   fst (fst (projr (acquire_agent mixed_pool ''s1''))) = ''worker_b'' \<and>
   \<not> isl (acquire_agent mixed_pool ''s1'') \<and>
   map (\<lambda>(k, a). map_of (agent_sessions pool_all_busy) (agent_id a) \<noteq> None) (agents pool_all_busy) =
     [True, True] \<and>
   map (\<lambda>(k, a). is_available a) (agents pool_all_busy) = [False, False] \<and>
   acquire_agent pool_all_busy ''s1'' =
     Inl (AgentCoordinationError ''No agents available for task execution'')"
proof -
  have keyed: "\<forall>(k, a) \<in> set (agents mixed_pool).
                 map_of (agent_sessions mixed_pool) (agent_id a) \<noteq> None"
    by (simp add: mixed_pool_def)
  have av: "\<exists>(k, a) \<in> set (agents mixed_pool). is_available a"
    by (simp add: mixed_pool_def is_available_def)
  have m1: "map (\<lambda>(k, a). map_of (agent_sessions mixed_pool) (agent_id a) \<noteq> None)
              (agents mixed_pool) = [True, True, True]"
    and m2: "map (\<lambda>(k, a). is_available a) (agents mixed_pool) = [True, True, False]"
    and m3: "map (\<lambda>(k, a). get_load_factor a) (agents mixed_pool) = [1 / 2, 1 / 4, 0]"
    by (simp_all add: mixed_pool_def is_available_def get_load_factor_def)
  have acq: "acquire_agent mixed_pool ''s1'' =
     Inr ((''worker_b'', \<lparr>agent_id = ''worker_b'', agent_state = AS_IDLE,
                           current_tasks = [''t3''], max_concurrent_tasks = 4\<rparr>),
          mixed_pool\<lparr>agent_assignment := [(''s1'', ''worker_b'')],
                     agent_sessions := [(''worker_a'', []), (''worker_b'', [''s1'']),
                                        (''worker_c'', [])]\<rparr>)"
    by (simp add: mixed_pool_def acquire_agent_def find_best_agent_def is_available_def
        get_load_factor_def Let_def)
  have r1: "fst (projr (acquire_agent mixed_pool ''s1'')) = agents mixed_pool ! 1"
     "fst (fst (projr (acquire_agent mixed_pool ''s1''))) = ''worker_b''"
     "\<not> isl (acquire_agent mixed_pool ''s1'')"
    unfolding acq by (simp_all add: mixed_pool_def)
  have keyed2: "\<forall>(k, a) \<in> set (agents pool_all_busy).
                 map_of (agent_sessions pool_all_busy) (agent_id a) \<noteq> None"
    by (simp add: pool_all_busy_agents pool_all_busy_sessions)
  have nav: "\<forall>(k, a) \<in> set (agents pool_all_busy). \<not> is_available a"
    by (simp add: pool_all_busy_agents is_available_def)
  have b1: "map (\<lambda>(k, a). map_of (agent_sessions pool_all_busy) (agent_id a) \<noteq> None)
              (agents pool_all_busy) = [True, True]"
    and b2: "map (\<lambda>(k, a). is_available a) (agents pool_all_busy) = [False, False]"
    by (simp_all add: pool_all_busy_agents pool_all_busy_sessions is_available_def)
  from acquire_agent_lowest_load [OF keyed, of "''s1''"] av
  have "\<exists>k a c'. acquire_agent mixed_pool ''s1'' = Inr ((k, a), c')" by blast
  moreover from acquire_agent_lowest_load [OF keyed2, of "''s1''"] nav
  have r2: "acquire_agent pool_all_busy ''s1'' =
     Inl (AgentCoordinationError ''No agents available for task execution'')"
    by blast
  ultimately show ?thesis
    using m1 m2 m3 r1 b1 b2 by blast
qed

text \<open>
  C9. In every reachable state of the pool, no agent holds more current tasks than its
  \<^verbatim>\<open>max_concurrent_tasks\<close>, and every agent's load factor lies between 0 and 1.
\<close>

theorem capacity_never_exceeded:
  assumes "reachable c"
  shows "\<forall>(k, a) \<in> set (agents c).
           int (length (current_tasks a)) \<le> max_concurrent_tasks a \<and>
           0 \<le> get_load_factor a \<and> get_load_factor a \<le> 1"
proof (clarify)
  fix k a assume "(k, a) \<in> set (agents c)"
  from pool_okD [OF reachable_pool_ok [OF assms] this]
  have l: "int (length (current_tasks a)) \<le> max_concurrent_tasks a"
    and p: "0 < max_concurrent_tasks a" by simp_all
  from l have "real (length (current_tasks a)) \<le> real_of_int (max_concurrent_tasks a)"
    by linarith
  then have "0 \<le> get_load_factor a \<and> get_load_factor a \<le> 1"
    using p by (simp add: get_load_factor_def)
  then show "int (length (current_tasks a)) \<le> max_concurrent_tasks a \<and>
           0 \<le> get_load_factor a \<and> get_load_factor a \<le> 1"
    using l by simp
qed

theorem capacity_never_exceeded_witness:
  "reachable pool_one_busy \<and>
   map (\<lambda>(k, a). (k, current_tasks a, max_concurrent_tasks a)) (agents pool_one_busy) =
     [(''dev_agent_0'', [''A''], 1), (''dev_agent_1'', [], 1)] \<and>
   int (length (current_tasks (snd (agents pool_one_busy ! 0)))) \<le>
     max_concurrent_tasks (snd (agents pool_one_busy ! 0)) \<and>
   0 \<le> get_load_factor (snd (agents pool_one_busy ! 0)) \<and>
   get_load_factor (snd (agents pool_one_busy ! 0)) \<le> 1"
proof -
  have m: "map (\<lambda>(k, a). (k, current_tasks a, max_concurrent_tasks a)) (agents pool_one_busy) =
     [(''dev_agent_0'', [''A''], 1), (''dev_agent_1'', [], 1)]"
    by (simp add: pool_one_busy_eq)
  have mem: "agents pool_one_busy ! 0 \<in> set (agents pool_one_busy)"
    by (simp add: pool_one_busy_eq)
  from capacity_never_exceeded [OF pool_one_busy_reachable] mem
  have "int (length (current_tasks (snd (agents pool_one_busy ! 0)))) \<le>
     max_concurrent_tasks (snd (agents pool_one_busy ! 0)) \<and>
   0 \<le> get_load_factor (snd (agents pool_one_busy ! 0)) \<and>
   get_load_factor (snd (agents pool_one_busy ! 0)) \<le> 1"
    by (metis (mono_tags, lifting) case_prod_unfold)
  then show ?thesis using m pool_one_busy_reachable by blast
qed


section \<open>Properties of the dependency analysis\<close>

lemma fold_add_edge:
  "fold add_edge D (adj, indeg) =
     (\<lambda>t. adj t @ adj_of D t, \<lambda>t. indeg t + int (pending D UNIV t))"
proof (induction D arbitrary: adj indeg)
  case Nil
  show ?case by (simp add: adj_of_def pending_def)
next
  case (Cons dep D)
  show ?case
  proof (cases "is_blocking dep")
    case True
    let ?adj = "adj(to_task_id dep := adj (to_task_id dep) @ [from_task_id dep])"
    let ?indeg = "indeg(from_task_id dep := indeg (from_task_id dep) + 1)"
    have "fold add_edge (dep # D) (adj, indeg) = fold add_edge D (?adj, ?indeg)"
      by (simp add: add_edge_def True)
    also have "\<dots> = (\<lambda>t. ?adj t @ adj_of D t, \<lambda>t. ?indeg t + int (pending D UNIV t))"
      by (rule Cons.IH)
    also have "\<dots> = (\<lambda>t. adj t @ adj_of (dep # D) t,
                       \<lambda>t. indeg t + int (pending (dep # D) UNIV t))"
      using True by (auto simp: adj_of_def pending_def fun_eq_iff)
    finally show ?thesis .
  next
    case False
    have "fold add_edge (dep # D) (adj, indeg) = fold add_edge D (adj, indeg)"
      by (simp add: add_edge_def False)
    also have "\<dots> = (\<lambda>t. adj t @ adj_of D t, \<lambda>t. indeg t + int (pending D UNIV t))"
      by (rule Cons.IH)
    also have "\<dots> = (\<lambda>t. adj t @ adj_of (dep # D) t,
                       \<lambda>t. indeg t + int (pending (dep # D) UNIV t))"
      using False by (auto simp: adj_of_def pending_def fun_eq_iff)
    finally show ?thesis .
  qed
qed

lemma decrement_count: "decrement xs d t = d t - int (count_list xs t)"
  unfolding decrement_def by (induction xs arbitrary: d) auto

lemma count_list_adj_of:
  "count_list (adj_of D c) t =
     length (filter (\<lambda>dep. is_blocking dep \<and> from_task_id dep = t \<and> to_task_id dep = c) D)"
  unfolding adj_of_def by (induction D) auto

lemma fold_decrement:
  "distinct C \<Longrightarrow>
   fold (\<lambda>c. decrement (adj_of D c)) C d t = d t - int (pending D (set C) t)"
proof (induction C arbitrary: d)
  case Nil
  show ?case by (simp add: pending_def)
next
  case (Cons c C)
  have c: "c \<notin> set C" and dC: "distinct C" using Cons.prems by simp_all
  have split: "pending D (set (c # C)) t =
        length (filter (\<lambda>dep. is_blocking dep \<and> from_task_id dep = t \<and> to_task_id dep = c) D) +
        pending D (set C) t"
    unfolding pending_def using c by (induction D) auto
  have "fold (\<lambda>c. decrement (adj_of D c)) (c # C) d t =
        fold (\<lambda>c. decrement (adj_of D c)) C (decrement (adj_of D c) d) t"
    by simp
  also have "\<dots> = decrement (adj_of D c) d t - int (pending D (set C) t)"
    by (rule Cons.IH [OF dC])
  also have "\<dots> = d t - int (pending D (set (c # C)) t)"
    unfolding decrement_count count_list_adj_of split by simp
  finally show ?case .
qed

lemma pending_diff:
  assumes "C \<subseteq> R"
  shows "pending D (R - C) t + pending D C t = pending D R t"
  unfolding pending_def using assms by (induction D) auto

lemma pending_zero:
  "(pending D R t = 0) =
     (\<forall>dep \<in> set D. is_blocking dep \<and> from_task_id dep = t \<longrightarrow> to_task_id dep \<notin> R)"
  unfolding pending_def by (auto simp: filter_empty_conv)

lemma lookup_all_ok:
  assumes "\<forall>t \<in> set C. \<exists>task. lookup t = Some task \<and> task_id task = t \<and>
             estimated_duration_minutes task \<noteq> None"
  shows "\<exists>found. lookup_all lookup C = Inr found \<and> map task_id found = C \<and>
           (\<forall>task \<in> set found. estimated_duration_minutes task \<noteq> None)"
  using assms
proof (induction C)
  case Nil
  show ?case by simp
next
  case (Cons t C)
  from Cons.prems obtain task where t: "lookup t = Some task" "task_id task = t"
      "estimated_duration_minutes task \<noteq> None" by auto
  from Cons obtain found where f: "lookup_all lookup C = Inr found" "map task_id found = C"
      "\<forall>task \<in> set found. estimated_duration_minutes task \<noteq> None" by auto
  show ?case using t f by simp
qed

lemma python_max_from_ok:
  "m \<noteq> None \<Longrightarrow> \<forall>x \<in> set xs. x \<noteq> None \<Longrightarrow> \<exists>r. python_max_from m xs = Inr r"
proof (induction xs arbitrary: m)
  case Nil
  show ?case by simp
next
  case (Cons x xs)
  from Cons.prems obtain a b where "x = Some a" "m = Some b" by auto
  then show ?case using Cons.IH [of "if a > b then Some a else Some b"] Cons.prems by auto
qed

lemma exists_ready:
  assumes "acyclic (blocking_edges D)" and "R \<noteq> {}"
  shows "\<exists>z \<in> R. pending D R z = 0"
proof -
  have "finite (blocking_edges D)" by (simp add: blocking_edges_def)
  then have w: "wf ((blocking_edges D)\<inverse>)"
    using assms(1) by (rule finite_acyclic_wf_converse)
  from assms(2) obtain x where "x \<in> R" by blast
  from wfE_min [OF w this] obtain z where z: "z \<in> R"
    and m: "\<And>y. (y, z) \<in> (blocking_edges D)\<inverse> \<Longrightarrow> y \<notin> R" by blast
  have "pending D R z = 0"
    unfolding pending_zero
  proof (intro ballI impI)
    fix dep assume "dep \<in> set D" "is_blocking dep \<and> from_task_id dep = z"
    then have "(to_task_id dep, z) \<in> (blocking_edges D)\<inverse>"
      by (force simp: blocking_edges_def)
    then show "to_task_id dep \<notin> R" by (rule m)
  qed
  with z show ?thesis by blast
qed

lemma layers_loop_correct:
  assumes ac: "acyclic (blocking_edges D)"
    and inv: "\<forall>t \<in> set R. d t = int (pending D (set R) t)"
    and dist: "distinct R"
    and look: "\<forall>t \<in> set R. \<exists>task. lookup t = Some task \<and> task_id task = t \<and>
                 estimated_duration_minutes task \<noteq> None"
  shows "\<exists>ls. layers_loop lookup (adj_of D) n R d = Inr ls \<and>
           distinct (concat (map get_task_ids ls)) \<and>
           set (concat (map get_task_ids ls)) = set R \<and>
           (\<forall>i < length ls. layer_number (ls ! i) = int (n + i)) \<and>
           (\<forall>dep \<in> set D. is_blocking dep \<longrightarrow>
              (\<forall>i j. i < length ls \<and> j < length ls \<and>
                     from_task_id dep \<in> set (get_task_ids (ls ! i)) \<and>
                     to_task_id dep \<in> set (get_task_ids (ls ! j)) \<longrightarrow> j < i))"
  using inv dist look
proof (induction "length R" arbitrary: R d n rule: less_induct)
  case less
  show ?case
  proof (cases "R = []")
    case True
    then show ?thesis by (simp add: layers_loop.simps)
  next
    case False
    let ?C = "filter (\<lambda>t. d t = 0) R"
    let ?R' = "filter (\<lambda>t. t \<notin> set ?C) R"
    let ?d' = "fold (\<lambda>t. decrement (adj_of D t)) ?C d"
    from False have "set R \<noteq> {}" by simp
    from exists_ready [OF ac this] obtain z where z: "z \<in> set R" "pending D (set R) z = 0"
      by blast
    then have "z \<in> set ?C" using less.prems(1) by simp
    then have Cne: "?C \<noteq> []" by (metis empty_iff list.set(1))
    have Csub: "set ?C \<subseteq> set R" by auto
    have "\<forall>t \<in> set ?C. \<exists>task. lookup t = Some task \<and> task_id task = t \<and>
             estimated_duration_minutes task \<noteq> None"
      using less.prems(3) by simp
    from lookup_all_ok [OF this] obtain found where
      f: "lookup_all lookup ?C = Inr found" "map task_id found = ?C"
        "\<forall>task \<in> set found. estimated_duration_minutes task \<noteq> None"
      by blast
    from f(2) Cne obtain t0 ts0 where found: "found = t0 # ts0" by (cases found) auto
    have "\<exists>r. python_max_from (estimated_duration_minutes t0)
                (map estimated_duration_minutes ts0) = Inr r"
      using f(3) found by (intro python_max_from_ok) auto
    then obtain md where md: "python_max_from (estimated_duration_minutes t0)
                (map estimated_duration_minutes ts0) = Inr md" by blast
    have len: "length ?R' < length R"
      using \<open>z \<in> set ?C\<close> z(1) by (metis (mono_tags, lifting) length_filter_less)
    have setR': "set ?R' = set R - set ?C" by auto
    have inv': "\<forall>t \<in> set ?R'. ?d' t = int (pending D (set ?R') t)"
    proof
      fix t assume t: "t \<in> set ?R'"
      then have tR: "t \<in> set R" by simp
      have "?d' t = d t - int (pending D (set ?C) t)"
        using less.prems(2) by (intro fold_decrement) simp
      also have "\<dots> = int (pending D (set R) t) - int (pending D (set ?C) t)"
        using less.prems(1) tR by simp
      also have "\<dots> = int (pending D (set R - set ?C) t)"
        using pending_diff [OF Csub, of D t] by simp
      finally show "?d' t = int (pending D (set ?R') t)" by (simp only: setR')
    qed
    have dist': "distinct ?R'" using less.prems(2) by simp
    have look': "\<forall>t \<in> set ?R'. \<exists>task. lookup t = Some task \<and> task_id task = t \<and>
                 estimated_duration_minutes task \<noteq> None"
      using less.prems(3) by simp
    from less.hyps [OF len inv' dist' look', of "n + 1"] obtain ls' where
      l1: "layers_loop lookup (adj_of D) (n + 1) ?R' ?d' = Inr ls'"
      and l2: "distinct (concat (map get_task_ids ls'))"
      and l3: "set (concat (map get_task_ids ls')) = set ?R'"
      and l4: "\<forall>i < length ls'. layer_number (ls' ! i) = int (n + 1 + i)"
      and l5: "\<forall>dep \<in> set D. is_blocking dep \<longrightarrow>
              (\<forall>i j. i < length ls' \<and> j < length ls' \<and>
                     from_task_id dep \<in> set (get_task_ids (ls' ! i)) \<and>
                     to_task_id dep \<in> set (get_task_ids (ls' ! j)) \<longrightarrow> j < i)"
      by blast
    let ?L = "\<lparr>layer_number = int n, layer_tasks = found,
               layer_estimated_duration_minutes = md\<rparr>"
    have res: "layers_loop lookup (adj_of D) n R d = Inr (?L # ls')"
      using False Cne f(1) md l1 found
      by (subst layers_loop.simps) (simp add: Let_def)
    have idsL: "get_task_ids ?L = ?C" by (simp add: get_task_ids_def f(2))
    have p1: "distinct (concat (map get_task_ids (?L # ls')))"
      using l2 l3 less.prems(2) by (auto simp: idsL)
    have p2: "set (concat (map get_task_ids (?L # ls'))) = set R"
      using l3 by (auto simp: idsL)
    have p3: "\<forall>i < length (?L # ls'). layer_number ((?L # ls') ! i) = int (n + i)"
      using l4 by (auto simp: nth_Cons split: nat.splits)
    have p4: "\<forall>dep \<in> set D. is_blocking dep \<longrightarrow>
              (\<forall>i j. i < length (?L # ls') \<and> j < length (?L # ls') \<and>
                     from_task_id dep \<in> set (get_task_ids ((?L # ls') ! i)) \<and>
                     to_task_id dep \<in> set (get_task_ids ((?L # ls') ! j)) \<longrightarrow> j < i)"
    proof (intro ballI impI allI)
      fix dep i j
      assume dep: "dep \<in> set D" and b: "is_blocking dep"
        and h: "i < length (?L # ls') \<and> j < length (?L # ls') \<and>
                     from_task_id dep \<in> set (get_task_ids ((?L # ls') ! i)) \<and>
                     to_task_id dep \<in> set (get_task_ids ((?L # ls') ! j))"
      have inR: "to_task_id dep \<in> set R"
      proof -
        have "to_task_id dep \<in> set (concat (map get_task_ids (?L # ls')))"
          using h by (metis (no_types, lifting) concat_map_singleton length_map nth_map nth_mem
              set_concat UN_I)
        then show ?thesis using p2 by blast
      qed
      have i0: "i \<noteq> 0"
      proof
        assume "i = 0"
        then have "from_task_id dep \<in> set ?C" using h idsL by simp
        then have fr: "from_task_id dep \<in> set R" "d (from_task_id dep) = 0" by simp_all
        then have "pending D (set R) (from_task_id dep) = 0" using less.prems(1) by simp
        then show False using dep b inR by (simp add: pending_zero)
      qed
      then obtain i' where i': "i = Suc i'" by (cases i) auto
      show "j < i"
      proof (cases j)
        case 0
        then show ?thesis using i' by simp
      next
        case (Suc j')
        then have "j' < i'" using l5 dep b h i' by auto
        then show ?thesis using Suc i' by simp
      qed
    qed
    show ?thesis using res p1 p2 p3 p4 by blast
  qed
qed

lemma concat_index_unique:
  "distinct (concat xss) \<Longrightarrow> i < length xss \<Longrightarrow> j < length xss \<Longrightarrow>
   x \<in> set (xss ! i) \<Longrightarrow> x \<in> set (xss ! j) \<Longrightarrow> i = j"
proof (induction xss arbitrary: i j)
  case Nil
  then show ?case by simp
next
  case (Cons xs xss)
  have d: "distinct (concat xss)" and disj: "set xs \<inter> set (concat xss) = {}"
    using Cons.prems(1) by auto
  have later: "x \<in> set (concat xss)" if "k < length xss" "x \<in> set (xss ! k)" for k
    using that by (metis nth_mem set_concat UN_I)
  show ?case
  proof (cases i)
    case 0
    show ?thesis
    proof (cases j)
      case 0
      then show ?thesis using \<open>i = 0\<close> by simp
    next
      case (Suc j')
      then have "x \<in> set (concat xss)" using Cons.prems later by auto
      then show ?thesis using \<open>i = 0\<close> Cons.prems disj by auto
    qed
  next
    case (Suc i')
    show ?thesis
    proof (cases j)
      case 0
      have "x \<in> set (concat xss)" using Suc Cons.prems later by auto
      then show ?thesis using 0 Cons.prems disj by auto
    next
      case (Suc j')
      then show ?thesis using \<open>i = Suc i'\<close> Cons.prems Cons.IH [OF d, of i' j'] by auto
    qed
  qed
qed

lemma concat_index_exists:
  "x \<in> set (concat xss) \<Longrightarrow> \<exists>i < length xss. x \<in> set (xss ! i)"
  by (auto simp: in_set_conv_nth) blast

lemma generate_execution_layers_correct:
  assumes ac: "acyclic (blocking_edges (dependencies g))"
    and wf: "\<forall>dep \<in> set (dependencies g). is_blocking dep \<longrightarrow>
               from_task_id dep \<in> set (tasks g) \<and> to_task_id dep \<in> set (tasks g)"
    and look: "\<forall>t \<in> set (tasks g). \<exists>task. task_lookup t = Some task \<and> task_id task = t \<and>
                 estimated_duration_minutes task \<noteq> None"
  shows "\<exists>ls. generate_execution_layers g task_lookup = Inr ls \<and>
           (\<forall>t \<in> set (tasks g). \<exists>!i. i < length ls \<and> t \<in> set (get_task_ids (ls ! i))) \<and>
           (\<forall>i < length ls. distinct (get_task_ids (ls ! i)) \<and>
                             set (get_task_ids (ls ! i)) \<subseteq> set (tasks g) \<and>
                             layer_number (ls ! i) = int i) \<and>
           (\<forall>dep \<in> set (dependencies g). is_blocking dep \<longrightarrow>
              (\<forall>i j. i < length ls \<and> j < length ls \<and>
                     from_task_id dep \<in> set (get_task_ids (ls ! i)) \<and>
                     to_task_id dep \<in> set (get_task_ids (ls ! j)) \<longrightarrow> j < i))"
proof -
  let ?D = "dependencies g"
  let ?R = "remdups (tasks g)"
  let ?d = "\<lambda>t. 0 + int (pending ?D UNIV t)"
  have gen: "generate_execution_layers g task_lookup = layers_loop task_lookup (adj_of ?D) 0 ?R ?d"
    by (simp add: generate_execution_layers_def fold_add_edge)
  have inv: "\<forall>t \<in> set ?R. ?d t = int (pending ?D (set ?R) t)"
  proof
    fix t assume "t \<in> set ?R"
    have "filter (\<lambda>dep. is_blocking dep \<and> from_task_id dep = t \<and> to_task_id dep \<in> UNIV) ?D =
          filter (\<lambda>dep. is_blocking dep \<and> from_task_id dep = t \<and> to_task_id dep \<in> set ?R) ?D"
      using wf by (intro filter_cong) auto
    then show "?d t = int (pending ?D (set ?R) t)" by (simp add: pending_def)
  qed
  have look': "\<forall>t \<in> set ?R. \<exists>task. task_lookup t = Some task \<and> task_id task = t \<and>
                 estimated_duration_minutes task \<noteq> None"
    using look by simp
  from layers_loop_correct [OF ac inv _ look', of 0] obtain ls where
    l1: "layers_loop task_lookup (adj_of ?D) 0 ?R ?d = Inr ls"
    and l2: "distinct (concat (map get_task_ids ls))"
    and l3: "set (concat (map get_task_ids ls)) = set ?R"
    and l4: "\<forall>i < length ls. layer_number (ls ! i) = int (0 + i)"
    and l5: "\<forall>dep \<in> set ?D. is_blocking dep \<longrightarrow>
              (\<forall>i j. i < length ls \<and> j < length ls \<and>
                     from_task_id dep \<in> set (get_task_ids (ls ! i)) \<and>
                     to_task_id dep \<in> set (get_task_ids (ls ! j)) \<longrightarrow> j < i)"
    by auto
  have once: "\<exists>!i. i < length ls \<and> t \<in> set (get_task_ids (ls ! i))" if "t \<in> set (tasks g)" for t
  proof -
    from that l3 have "t \<in> set (concat (map get_task_ids ls))" by simp
    from concat_index_exists [OF this] obtain i where
      i: "i < length ls" "t \<in> set (get_task_ids (ls ! i))" by auto
    have "j = i" if "j < length ls" "t \<in> set (get_task_ids (ls ! j))" for j
      using concat_index_unique [OF l2, of j i t] that i by simp
    with i show ?thesis by blast
  qed
  have each: "distinct (get_task_ids (ls ! i)) \<and> set (get_task_ids (ls ! i)) \<subseteq> set (tasks g) \<and>
              layer_number (ls ! i) = int i" if "i < length ls" for i
  proof -
    have m: "get_task_ids (ls ! i) \<in> set (map get_task_ids ls)" using that by simp
    then have "distinct (get_task_ids (ls ! i))" using l2 by (simp add: distinct_concat_iff)
    moreover have "set (get_task_ids (ls ! i)) \<subseteq> set (tasks g)"
      using m l3 by (metis UN_I set_concat set_remdups subsetI)
    ultimately show ?thesis using l4 that by simp
  qed
  show ?thesis using gen l1 once each l5 by auto
qed

lemma diamond_layers:
  "map get_task_ids (projr (generate_execution_layers diamond_graph (task_lookup_of diamond)))
     = [[''A'', ''C''], [''B''], [''D'']]"
  by (simp add: diamond_graph_def diamond_def timed_def needs_def task_lookup_of_def
      generate_execution_layers_def layers_loop.simps
      add_edge_def decrement_def get_task_ids_def Let_def)

lemma diamond_graph_simps:
  "tasks diamond_graph = [''A'', ''B'', ''C'', ''D'']"
  "dependencies diamond_graph =
     [\<lparr>from_task_id = ''B'', to_task_id = ''A'', dependency_type = FILE, is_blocking = True\<rparr>,
      \<lparr>from_task_id = ''D'', to_task_id = ''B'', dependency_type = FILE, is_blocking = True\<rparr>,
      \<lparr>from_task_id = ''D'', to_task_id = ''C'', dependency_type = FILE, is_blocking = True\<rparr>]"
  by (simp_all add: diamond_graph_def diamond_def timed_def needs_def)

lemma diamond_acyclic: "acyclic (blocking_edges (dependencies diamond_graph))"
proof (rule acyclicI_order [where f = "\<lambda>t. if t = ''D'' then 2 else if t = ''B'' then 1 else (0::nat)"])
  fix a b
  assume "(a, b) \<in> blocking_edges (dependencies diamond_graph)"
  then have "(a, b) \<in> {(''B'', ''A''), (''D'', ''B''), (''D'', ''C'')}"
    by (simp add: diamond_graph_simps blocking_edges_def)
  then show "(if b = ''D'' then 2 else if b = ''B'' then 1 else (0::nat)) <
             (if a = ''D'' then 2 else if a = ''B'' then 1 else (0::nat))"
    by auto
qed

lemma generate_execution_layers_correct_witness:
  "acyclic (blocking_edges (dependencies diamond_graph)) \<and>
   (\<exists>ls. generate_execution_layers diamond_graph (task_lookup_of diamond) = Inr ls \<and>
         map get_task_ids ls = [[''A'', ''C''], [''B''], [''D'']] \<and>
         map layer_number ls = [0, 1, 2])"
proof -
  have wf: "\<forall>dep \<in> set (dependencies diamond_graph). is_blocking dep \<longrightarrow>
               from_task_id dep \<in> set (tasks diamond_graph) \<and>
               to_task_id dep \<in> set (tasks diamond_graph)"
    by (simp add: diamond_graph_simps)
  have look: "\<forall>t \<in> set (tasks diamond_graph).
                \<exists>task. task_lookup_of diamond t = Some task \<and> task_id task = t \<and>
                 estimated_duration_minutes task \<noteq> None"
    by (simp add: diamond_graph_simps) (simp add: task_lookup_of_def diamond_def timed_def)
  from generate_execution_layers_correct [OF diamond_acyclic wf look]
  obtain ls where ls: "generate_execution_layers diamond_graph (task_lookup_of diamond) = Inr ls"
    and num: "\<forall>i < length ls. layer_number (ls ! i) = int i"
    by blast
  have ids: "map get_task_ids ls = [[''A'', ''C''], [''B''], [''D'']]"
    using diamond_layers ls by simp
  then have "length ls = 3" by (metis length_map length_Cons list.size(3) numeral_3_eq_3)
  then have "map layer_number ls = [0, 1, 2]"
    using num by (auto simp: list_eq_iff_nth_eq nth_Cons numeral_3_eq_3 less_Suc_eq split: nat.splits)
  then show ?thesis using diamond_acyclic ls ids by simp
qed

text \<open>
  C1, on the code: two independent tasks without an estimated duration form an acyclic
  graph that passes validation, and \<^verbatim>\<open>_generate_execution_layers\<close> raises
  \<^verbatim>\<open>TypeError\<close> when it takes the maximum of their durations, so no task is placed
  in a layer. (The lemma \<open>generate_execution_layers_correct\<close> above shows the layering
  for tasks that all carry a duration.)
\<close>

theorem untimed_tasks_raise_type_error:
  "validate_dependency_graph (graph_over two_untimed) (map task_id two_untimed) = None \<and>
   generate_execution_layers (graph_over two_untimed) (task_lookup_of two_untimed) =
     Inl (TypeError ''> not supported between these instances'')"
  by (simp add: graph_over_def two_untimed_def untimed_def task_lookup_of_def
      generate_execution_layers_def layers_loop.simps
      validate_dependency_graph_def validate_acyclic_def Let_def)

lemma extract_explicit_dependencies_raises:
  "ts \<noteq> [] \<Longrightarrow>
   extract_explicit_dependencies ts = Inl (no_attribute ''CompleteTask'' ''depends_on'')"
  by (cases ts) (simp_all add: extract_explicit_dependencies_def depends_on_def)

lemma analyze_task_dependencies_raises:
  "ts \<noteq> [] \<Longrightarrow>
   analyze_task_dependencies ts heuristics =
     Inl (DependencyAnalysisError
            (''Failed to analyze dependencies: '' @
             repr_string ''CompleteTask'' @ '' object has no attribute '' @
             repr_string ''depends_on''))"
  by (simp add: analyze_task_dependencies_def extract_explicit_dependencies_raises
      no_attribute_def)

lemma analyze_never_raises_circular:
  "analyze_task_dependencies ts heuristics \<noteq> Inl (CircularDependencyError m)"
  by (simp add: analyze_task_dependencies_def Let_def split: sum.splits option.splits)

text \<open>
  C2, on the code. Task A creates the file a.py and uses b.py, task B creates b.py and
  uses a.py: the file analysis makes each depend on the other with a blocking edge, and
  \<^verbatim>\<open>_validate_dependency_graph\<close> raises \<^verbatim>\<open>CircularDependencyError\<close> for the graph
  of these edges. \<^verbatim>\<open>analyze_task_dependencies\<close> does not get there: reading
  \<^verbatim>\<open>task.depends_on\<close> raises \<^verbatim>\<open>AttributeError\<close> in
  \<^verbatim>\<open>_extract_explicit_dependencies\<close>, and the handler raises a
  \<^verbatim>\<open>DependencyAnalysisError\<close>, the base class, whatever the keyword heuristics would
  give; and for a list of declared dependencies that names task B, building the edge
  raises as well, at \<^verbatim>\<open>DependencyType.EXPLICIT\<close>. (By the lemma
  \<open>analyze_never_raises_circular\<close> above the handler lets no
  \<^verbatim>\<open>CircularDependencyError\<close> leave the method for any input.)
\<close>

theorem cycle_raises_base_error:
  "analyze_file_dependencies file_cycle = [needs ''B'' ''A'', needs ''A'' ''B''] \<and>
   blocking_edges (analyze_file_dependencies file_cycle) = {(''B'', ''A''), (''A'', ''B'')} \<and>
   validate_dependency_graph
     \<lparr>tasks = map task_id file_cycle, dependencies = analyze_file_dependencies file_cycle\<rparr>
     (map task_id file_cycle) =
     Some (CircularDependencyError ''Circular dependencies detected in task graph'') \<and>
   analyze_task_dependencies file_cycle heuristics =
     Inl (DependencyAnalysisError
            (''Failed to analyze dependencies: '' @
             repr_string ''CompleteTask'' @ '' object has no attribute '' @
             repr_string ''depends_on'')) \<and>
   extract_explicit_dependencies file_cycle =
     Inl (AttributeError (repr_string ''CompleteTask'' @ '' object has no attribute '' @
                          repr_string ''depends_on'')) \<and>
   (\<exists>m. explicit_dependencies_of file_cycle (file_cycle ! 0) [''Z'', ''B''] =
          Inl (AttributeError m))"
proof -
  have x: "extract_explicit_dependencies file_cycle =
     Inl (AttributeError (repr_string ''CompleteTask'' @ '' object has no attribute '' @
                          repr_string ''depends_on''))"
    by (simp add: extract_explicit_dependencies_def depends_on_def no_attribute_def
        file_cycle_def)
  have d: "\<exists>m. explicit_dependencies_of file_cycle (file_cycle ! 0) [''Z'', ''B''] =
          Inl (AttributeError m)"
    by (simp add: file_cycle_def DependencyType_EXPLICIT_def)
  have f: "analyze_file_dependencies file_cycle = [needs ''B'' ''A'', needs ''A'' ''B'']"
    by (simp add: analyze_file_dependencies_def file_cycle_def note_file_def lower_def
        lower_char_def needs_def Let_def)
  have b: "blocking_edges [needs ''B'' ''A'', needs ''A'' ''B''] = {(''B'', ''A''), (''A'', ''B'')}"
    by (simp add: blocking_edges_def needs_def)
  have v: "validate_dependency_graph
     \<lparr>tasks = map task_id file_cycle, dependencies = [needs ''B'' ''A'', needs ''A'' ''B'']\<rparr>
     (map task_id file_cycle) =
     Some (CircularDependencyError ''Circular dependencies detected in task graph'')"
    by (simp add: file_cycle_def needs_def validate_dependency_graph_def validate_acyclic_def
        Let_def)
  have a: "analyze_task_dependencies file_cycle heuristics =
     Inl (DependencyAnalysisError
            (''Failed to analyze dependencies: '' @
             repr_string ''CompleteTask'' @ '' object has no attribute '' @
             repr_string ''depends_on''))"
    by (rule analyze_task_dependencies_raises) (simp add: file_cycle_def)
  show ?thesis
    unfolding f using b v a x d by simp
qed

end
